theory Spec2Isabelle
  imports Main "HOL-Library.Sublist" "HOL-Library.AList"
begin

section \<open>Python strings\<close>

text \<open>
  A Python \<open>str\<close> is modelled as a \<open>string\<close>, one \<open>char\<close> per code point, for code
  points below 256. The helpers below are the \<open>str\<close> methods that
  \<open>obsidian_to_org/__main__.py\<close> calls.
\<close>

text \<open>\<open>str.isspace\<close> on one character, for code points below 256.\<close>

definition whitespace :: "char list" where
  "whitespace = [CHR 0x09, CHR 0x0A, CHR 0x0B, CHR 0x0C, CHR 0x0D, CHR 0x1C, CHR 0x1D,
                 CHR 0x1E, CHR 0x1F, CHR 0x20, CHR 0x85, CHR 0xA0]"

definition py_isspace :: "char \<Rightarrow> bool" where
  "py_isspace ch \<longleftrightarrow> ch \<in> set whitespace"

text \<open>\<open>s.strip()\<close>: leading and trailing whitespace removed.\<close>

definition py_strip :: "string \<Rightarrow> string" where
  "py_strip s = rev (dropWhile py_isspace (rev (dropWhile py_isspace s)))"

text \<open>
  \<open>s.split(sep)\<close> for a separator \<open>sep\<close>: the chunks between the non-overlapping
  occurrences of \<open>sep\<close>, found from the left. Every call in the program passes a non-empty
  literal; Python raises \<open>ValueError\<close> for an empty one, where this function returns the
  string as its only chunk.
\<close>

function py_split :: "string \<Rightarrow> string \<Rightarrow> string list" where
  "py_split sep [] = [[]]"
| "py_split sep (c # cs) =
     (if sep \<noteq> [] \<and> prefix sep (c # cs)
      then [] # py_split sep (drop (length sep) (c # cs))
      else (case py_split sep cs of
              [] \<Rightarrow> [[c]]
            | chunk # chunks \<Rightarrow> (c # chunk) # chunks))"
  by pat_completeness auto
termination
  by (relation "measure (\<lambda>(sep, s). length s)") (auto simp: Suc_le_eq)

text \<open>\<open>sep.join(xs)\<close>.\<close>

fun py_join :: "string \<Rightarrow> string list \<Rightarrow> string" where
  "py_join sep [] = []"
| "py_join sep [x] = x"
| "py_join sep (x # y # ys) = x @ sep @ py_join sep (y # ys)"

text \<open>
  \<open>s.replace(old, new)\<close>: every non-overlapping occurrence of \<open>old\<close>, found from the left,
  replaced by \<open>new\<close>. For an empty \<open>old\<close> Python puts \<open>new\<close> before every character and at
  the end.
\<close>

function py_replace :: "string \<Rightarrow> string \<Rightarrow> string \<Rightarrow> string" where
  "py_replace old new [] = (if old = [] then new else [])"
| "py_replace old new (c # cs) =
     (if old = [] then new @ c # py_replace old new cs
      else if prefix old (c # cs)
      then new @ py_replace old new (drop (length old) (c # cs))
      else c # py_replace old new cs)"
  by pat_completeness auto
termination
  by (relation "measure (\<lambda>(old, new, s). length s)") (auto simp: Suc_le_eq)

text \<open>\<open>s.count(sub)\<close> for a non-empty \<open>sub\<close>: the non-overlapping occurrences from the left.\<close>

function py_count :: "string \<Rightarrow> string \<Rightarrow> nat" where
  "py_count sub [] = 0"
| "py_count sub (c # cs) =
     (if sub \<noteq> [] \<and> prefix sub (c # cs)
      then Suc (py_count sub (drop (length sub) (c # cs)))
      else py_count sub cs)"
  by pat_completeness auto
termination
  by (relation "measure (\<lambda>(sub, s). length s)") (auto simp: Suc_le_eq)

text \<open>
  The line boundaries of \<open>str.splitlines\<close>, for code points below 256: LF, VT, FF, CR,
  FS, GS, RS and NEL; CR LF is one boundary.
\<close>

definition is_linebreak :: "char \<Rightarrow> bool" where
  "is_linebreak ch \<longleftrightarrow>
     ch \<in> set [CHR 0x0A, CHR 0x0B, CHR 0x0C, CHR 0x0D, CHR 0x1C, CHR 0x1D, CHR 0x1E, CHR 0x85]"

text \<open>\<open>s.splitlines(True)\<close>: the lines of \<open>s\<close>, each with its line boundary kept.\<close>

fun splitlines_keep :: "string \<Rightarrow> string list" where
  "splitlines_keep [] = []"
| "splitlines_keep (c # cs) =
     (if is_linebreak c then
        (case cs of
           d # ds \<Rightarrow>
             if c = CHR 0x0D \<and> d = CHR 0x0A then [c, d] # splitlines_keep ds
             else [c] # splitlines_keep cs
         | [] \<Rightarrow> [[c]])
      else (case splitlines_keep cs of
              [] \<Rightarrow> [[c]]
            | l # ls \<Rightarrow> (c # l) # ls))"

declare splitlines_keep.simps [simp del]

section \<open>Regular expressions\<close>

text \<open>
  The fragment of Python's \<open>re\<close> syntax that the program's patterns use. \<open>Lit\<close> is a run
  of literal characters, \<open>Neg cs\<close> the negated class \<open>[^cs]\<close>, \<open>Star\<close> the greedy and
  \<open>StarLazy\<close> the non-greedy repetition, \<open>Grp n\<close> the capturing group number \<open>n\<close>.
\<close>

datatype re =
    Lit string
  | Neg "char list"
  | Seq re re
  | Alt re re
  | Star re
  | StarLazy re
  | Grp nat re

text \<open>\<open>.\<close> matches every character but the newline; \<open>r+\<close> is \<open>rr*\<close>; \<open>r?\<close> tries \<open>r\<close> first.\<close>

definition Dot :: re where
  "Dot = Neg [CHR 0x0A]"

definition Plus :: "re \<Rightarrow> re" where
  "Plus r = Seq r (Star r)"

definition Opt :: "re \<Rightarrow> re" where
  "Opt r = Alt r (Lit [])"

type_synonym groups = "nat \<rightharpoonup> string"

text \<open>
  The backtracking matcher. \<open>rmatch r s g\<close> lists every way in which \<open>r\<close> matches at the
  start of \<open>s\<close>, as the rest of the input and the groups captured, in the order in which
  the backtracking engine tries them; the engine's answer is the first entry.
  A repetition stops at an iteration that consumes nothing.
\<close>

function rmatch :: "re \<Rightarrow> string \<Rightarrow> groups \<Rightarrow> (string \<times> groups) list" where
  "rmatch (Lit l) s g = (if prefix l s then [(drop (length l) s, g)] else [])"
| "rmatch (Neg cs) s g =
     (case s of [] \<Rightarrow> [] | x # xs \<Rightarrow> if x \<in> set cs then [] else [(xs, g)])"
| "rmatch (Seq a b) s g = concat (map (\<lambda>(s', g'). rmatch b s' g') (rmatch a s g))"
| "rmatch (Alt a b) s g = rmatch a s g @ rmatch b s g"
| "rmatch (Star a) s g =
     concat (map (\<lambda>(s', g'). if length s' < length s then rmatch (Star a) s' g' else [])
                 (rmatch a s g)) @ [(s, g)]"
| "rmatch (StarLazy a) s g =
     (s, g) # concat (map (\<lambda>(s', g'). if length s' < length s then rmatch (StarLazy a) s' g'
                                        else [])
                          (rmatch a s g))"
| "rmatch (Grp n a) s g =
     map (\<lambda>(s', g'). (s', g'(n \<mapsto> take (length s - length s') s))) (rmatch a s g)"
  by pat_completeness auto
termination
  by (relation "measures [\<lambda>(r, s, g). size r, \<lambda>(r, s, g). length s]") auto

declare rmatch.simps [simp del]

text \<open>
  One search of the engine at the start of \<open>s\<close>. With \<open>must_advance\<close> set (the previous
  match was empty and ended here) an empty match is rejected and the engine backtracks
  to the next way of matching.
\<close>

definition find_match :: "re \<Rightarrow> bool \<Rightarrow> string \<Rightarrow> (string \<times> groups) option" where
  "find_match r must_advance s =
     (case filter (\<lambda>(s', g). \<not> must_advance \<or> length s' < length s) (rmatch r s Map.empty) of
        [] \<Rightarrow> None
      | m # _ \<Rightarrow> Some m)"

text \<open>
  The scan that \<open>pattern.sub\<close> and \<open>re.findall\<close> share: from the left, the engine's
  match at a position is recorded with its text and groups and the scan goes on where
  the match ended; a character at which nothing matches is passed over.
\<close>

datatype piece = Copy char | Match string groups

function scan_go :: "re \<Rightarrow> bool \<Rightarrow> string \<Rightarrow> piece list" where
  "scan_go r must_advance s =
     (case find_match r must_advance s of
        Some (s', g) \<Rightarrow>
          Match (take (length s - length s') s) g # scan_go r (length s' = length s) s'
      | None \<Rightarrow> (case s of [] \<Rightarrow> [] | x # xs \<Rightarrow> Copy x # scan_go r False xs))"
  by pat_completeness auto
termination
proof -
  have len: "length s' \<le> length s" if "(s', g') \<in> set (rmatch r s g)" for r s g s' g'
    using that
  proof (induction r s g arbitrary: s' g' rule: rmatch.induct)
    case (1 l s g)
    then show ?case by (simp add: rmatch.simps(1) split: if_splits)
  next
    case (2 cs s g)
    then show ?case by (auto simp: rmatch.simps(2) split: list.splits if_splits)
  next
    case (3 a b s g)
    from "3.prems" obtain s1 g1 where
      a: "(s1, g1) \<in> set (rmatch a s g)" and b: "(s', g') \<in> set (rmatch b s1 g1)"
      by (auto simp: rmatch.simps(3))
    from "3.IH"(1) [OF a] "3.IH"(2) [OF a refl b] show ?case by simp
  next
    case (4 a b s g)
    then show ?case by (auto simp: rmatch.simps(4))
  next
    case (5 a s g)
    from "5.prems" consider "s' = s" |
      s1 g1 where "(s1, g1) \<in> set (rmatch a s g)" "length s1 < length s"
        "(s', g') \<in> set (rmatch (Star a) s1 g1)"
      by (subst (asm) rmatch.simps(5)) (auto split: if_splits)
    then show ?case
    proof cases
      case 1
      then show ?thesis by simp
    next
      case 2
      from "5.IH"(2) [OF 2(1) refl 2(2) 2(3)] 2(2) show ?thesis by simp
    qed
  next
    case (6 a s g)
    from "6.prems" consider "s' = s" |
      s1 g1 where "(s1, g1) \<in> set (rmatch a s g)" "length s1 < length s"
        "(s', g') \<in> set (rmatch (StarLazy a) s1 g1)"
      by (subst (asm) rmatch.simps(6)) (auto split: if_splits)
    then show ?case
    proof cases
      case 1
      then show ?thesis by simp
    next
      case 2
      from "6.IH"(2) [OF 2(1) refl 2(2) 2(3)] 2(2) show ?thesis by simp
    qed
  next
    case (7 n a s g)
    then show ?case by (auto simp: rmatch.simps(7))
  qed
  have fm: "length s' \<le> length s \<and> (adv \<longrightarrow> length s' < length s)"
    if "find_match r adv s = Some (s', g)" for r adv s s' g
  proof -
    from that obtain ms where
      "filter (\<lambda>(s', g). \<not> adv \<or> length s' < length s) (rmatch r s Map.empty) = (s', g) # ms"
      by (auto simp: find_match_def split: list.splits)
    then have "(s', g) \<in> set (filter (\<lambda>(s', g). \<not> adv \<or> length s' < length s)
                                 (rmatch r s Map.empty))"
      by simp
    then show ?thesis using len by auto
  qed
  show ?thesis
    by (relation "measure (\<lambda>(r, adv, s). 2 * length s + (if adv then 0 else 1))")
       (auto dest!: fm)
qed

declare scan_go.simps [simp del]

definition scan :: "re \<Rightarrow> string \<Rightarrow> piece list" where
  "scan r s = scan_go r False s"

text \<open>A replacement template: literal text and group references \<open>\1\<close>, \<open>\2\<close>.\<close>

datatype tpl_item = TLit string | TGrp nat

definition expand :: "tpl_item list \<Rightarrow> groups \<Rightarrow> string" where
  "expand tpl g =
     concat (map (\<lambda>it. case it of
                          TLit l \<Rightarrow> l
                        | TGrp n \<Rightarrow> (case g n of None \<Rightarrow> [] | Some x \<Rightarrow> x)) tpl)"

text \<open>\<open>pattern.sub(template, s)\<close>: each match replaced by the expanded template.\<close>

definition re_sub :: "re \<Rightarrow> tpl_item list \<Rightarrow> string \<Rightarrow> string" where
  "re_sub r tpl s =
     concat (map (\<lambda>p. case p of Copy c \<Rightarrow> [c] | Match m g \<Rightarrow> expand tpl g) (scan r s))"

text \<open>\<open>re.findall(pattern, s)\<close> for a pattern without capturing groups: the matched texts.\<close>

definition findall :: "re \<Rightarrow> string \<Rightarrow> string list" where
  "findall r s = concat (map (\<lambda>p. case p of Copy c \<Rightarrow> [] | Match m g \<Rightarrow> [m]) (scan r s))"

section \<open>The program\<close>

subsection \<open>Constants and patterns\<close>

definition COMMENT_MARKER :: string where
  "COMMENT_MARKER = ''#!#comment:''"

text \<open>\<^verbatim>\<open>\[\[([^|\[\.]*?)\]\]\<close>\<close>

definition LINK_RE :: re where
  "LINK_RE = Seq (Lit ''[['') (Seq (Grp 1 (StarLazy (Neg ''|[.''))) (Lit '']]''))"

text \<open>\<^verbatim>\<open>\[\[([^\.]*?)\|(.*?)\]\]\<close>\<close>

definition LINK_DESCRIPTION_RE :: re where
  "LINK_DESCRIPTION_RE =
     Seq (Lit ''[['') (Seq (Grp 1 (StarLazy (Neg ''.'')))
       (Seq (Lit ''|'') (Seq (Grp 2 (StarLazy Dot)) (Lit '']]''))))"

text \<open>\<^verbatim>\<open>!?\[\[(?:[^|\[\]\.]*/)?([^/\]]+\.(png|jpe?g|svg|gif))\]\]\<close>\<close>

definition IMAGE_RE :: re where
  "IMAGE_RE =
     Seq (Opt (Lit ''!'')) (Seq (Lit ''[['')
       (Seq (Opt (Seq (Star (Neg ''|[].'')) (Lit ''/'')))
         (Seq (Grp 1 (Seq (Plus (Neg ''/]''))
                 (Seq (Lit ''.'')
                   (Grp 2 (Alt (Lit ''png'')
                          (Alt (Seq (Lit ''jp'') (Seq (Opt (Lit ''e'')) (Lit ''g'')))
                          (Alt (Lit ''svg'') (Lit ''gif''))))))))
           (Lit '']]''))))"

text \<open>\<^verbatim>\<open>!?\[\[(?:[^|\[\]\.]*/)?([^/\]]+\.(pdf|PDF))\]\]\<close>\<close>

definition PDF_RE :: re where
  "PDF_RE =
     Seq (Opt (Lit ''!'')) (Seq (Lit ''[['')
       (Seq (Opt (Seq (Star (Neg ''|[].'')) (Lit ''/'')))
         (Seq (Grp 1 (Seq (Plus (Neg ''/]''))
                 (Seq (Lit ''.'') (Grp 2 (Alt (Lit ''pdf'') (Lit ''PDF''))))))
           (Lit '']]''))))"

text \<open>\<^verbatim>\<open>\[\[file:(.*?)\]\[(.*?)\]\]\<close>\<close>

definition FILE_LINK_RE :: re where
  "FILE_LINK_RE =
     Seq (Lit ''[[file:'') (Seq (Grp 1 (StarLazy Dot))
       (Seq (Lit '']['') (Seq (Grp 2 (StarLazy Dot)) (Lit '']]''))))"

text \<open>The pattern of \<open>fix_markdown_code_blocks\<close>: three backticks, \<^verbatim>\<open>run-(.*)\<close>.\<close>

definition RUN_BLOCK_RE :: re where
  "RUN_BLOCK_RE = Seq (Lit ''```run-'') (Grp 1 (Star Dot))"

text \<open>
  The pattern of \<open>maybeSplitList\<close>, \<^verbatim>\<open>(?:[^\s,"]|"(?:\\.|[^"])*")+\<close>: \<open>CHR 0x22\<close> is the
  double quote and \<open>CHR 0x5C\<close> the backslash.
\<close>

definition TOKEN_RE :: re where
  "TOKEN_RE =
     Plus (Alt (Neg (whitespace @ [CHR '','', CHR 0x22]))
               (Seq (Lit [CHR 0x22])
                 (Seq (Star (Alt (Seq (Lit [CHR 0x5C]) Dot) (Neg [CHR 0x22])))
                      (Lit [CHR 0x22]))))"

subsection \<open>Syntax normalisation\<close>

definition fix_markdown_code_blocks :: "string \<Rightarrow> string" where
  "fix_markdown_code_blocks markdown_contents =
     py_replace ''```sh'' ''```shell''
       (re_sub RUN_BLOCK_RE [TLit ''```'', TGrp 1] markdown_contents)"

text \<open>
  What the loop of \<open>fix_markdown_comments\<close> appends for a chunk inside a comment: the
  marked lines of a chunk that contains a newline, its first line dropped when blank;
  the chunk between \<^verbatim>\<open><!--\<close> and \<^verbatim>\<open>-->\<close> otherwise.
\<close>

definition comment_chunk :: "string \<Rightarrow> string list" where
  "comment_chunk chunk =
     (if CHR 0x0A \<in> set chunk then
        (let lines = splitlines_keep chunk;
             lines = (if length lines > 0 \<and> py_strip (hd lines) = [] then tl lines else lines)
         in map (\<lambda>line. COMMENT_MARKER @ line) lines)
      else [''<!--'', chunk, ''-->''])"

text \<open>The loop over the chunks, with the flag \<open>inside_comment\<close>; the result is \<open>output\<close>.\<close>

fun comment_loop :: "bool \<Rightarrow> string list \<Rightarrow> string list" where
  "comment_loop inside_comment [] = []"
| "comment_loop inside_comment (chunk # chunks) =
     (if \<not> inside_comment then chunk # comment_loop True chunks
      else comment_chunk chunk @ comment_loop False chunks)"

definition fix_markdown_comments :: "string \<Rightarrow> string" where
  "fix_markdown_comments markdown_contents =
     concat (comment_loop False (py_split ''%%'' markdown_contents))"

definition restore_comments :: "string \<Rightarrow> string" where
  "restore_comments org_contents =
     concat (map (\<lambda>line. py_replace COMMENT_MARKER ''# '' line) (splitlines_keep org_contents))"

definition prepare_markdown_text :: "string \<Rightarrow> string" where
  "prepare_markdown_text markdown_contents =
     fix_markdown_code_blocks (fix_markdown_comments markdown_contents)"

definition fix_links :: "string \<Rightarrow> string" where
  "fix_links org_contents =
     py_replace ''%20'' '' ''
       (re_sub PDF_RE [TLit ''[[org-roam-attachments:'', TGrp 1, TLit '']]'']
         (re_sub IMAGE_RE [TLit ''[[org-roam-images:'', TGrp 1, TLit '']]'']
           (re_sub LINK_DESCRIPTION_RE [TLit ''[[file:'', TGrp 1, TLit ''.org]['', TGrp 2, TLit '']]'']
             (re_sub LINK_RE [TLit ''[[file:'', TGrp 1, TLit ''.org]['', TGrp 1, TLit '']]'']
               org_contents))))"

subsection \<open>Link resolution\<close>

text \<open>
  \<open>pathlib.Path(p).stem\<close> on a POSIX path: the last component that is neither empty nor
  \<open>.\<close>, without its suffix; the suffix starts at the last dot of the component, unless
  that dot is its first or its last character.
\<close>

definition path_name :: "string \<Rightarrow> string" where
  "path_name p =
     (case filter (\<lambda>part. part \<noteq> [] \<and> part \<noteq> ''.'') (py_split ''/'' p) of
        [] \<Rightarrow> []
      | part # parts \<Rightarrow> last (part # parts))"

definition path_stem :: "string \<Rightarrow> string" where
  "path_stem p =
     (let name = path_name p;
          suffix = rev (takeWhile (\<lambda>ch. ch \<noteq> CHR ''.'') (rev name));
          i = length name - length suffix - 1
      in if CHR ''.'' \<in> set name \<and> 0 < i \<and> i < length name - 1 then take i name else name)"

text \<open>
  The nested function \<open>replace_with_id\<close>, on the text of a match (\<open>group0\<close>) and its two
  groups; \<open>nodes\<close> is the Corpus Identity Table.
\<close>

definition replace_with_id :: "(string \<rightharpoonup> string) \<Rightarrow> string \<Rightarrow> string \<Rightarrow> string \<Rightarrow> string" where
  "replace_with_id nodes group0 group1 group2 =
     (let file_name = py_replace ''%20'' '' '' group1
      in case nodes (path_stem file_name) of
           None \<Rightarrow> group0
         | Some node_id \<Rightarrow>
             if node_id = [] then group0 else ''[[id:'' @ node_id @ '']['' @ group2 @ '']]'')"

text \<open>
  \<open>convert_file_links_to_id_links\<close> defines \<open>replace_with_id\<close> and ends there: its body
  has no \<open>return\<close> statement and never applies \<open>FILE_LINK_RE\<close>, so every call returns
  Python's \<open>None\<close>, which is \<open>None\<close> here.
\<close>

definition convert_file_links_to_id_links :: "string \<Rightarrow> (string \<rightharpoonup> string) \<Rightarrow> string option" where
  "convert_file_links_to_id_links org_contents nodes = None"

subsection \<open>Files and the conversion of one note\<close>

text \<open>
  The file store maps a path to the characters of the file there, on a POSIX system.
  The errors are the exceptions that the modelled code can raise.
\<close>

type_synonym fs = "string \<rightharpoonup> string"

datatype error =
    FileNotFoundError
  | PermissionError
  | CalledProcessError int
  | AttributeError
  | TypeError

text \<open>
  Python opens a file for reading in text mode with universal newlines: CR LF and a
  lone CR are read as LF.
\<close>

fun universal_newlines :: "string \<Rightarrow> string" where
  "universal_newlines [] = []"
| "universal_newlines [c] = (if c = CHR 0x0D then [CHR 0x0A] else [c])"
| "universal_newlines (c # d # ds) =
     (if c = CHR 0x0D \<and> d = CHR 0x0A then CHR 0x0A # universal_newlines ds
      else if c = CHR 0x0D then CHR 0x0A # universal_newlines (d # ds)
      else c # universal_newlines (d # ds))"

text \<open>\<open>path.read_text()\<close>: raises for a path without a file.\<close>

definition read_text :: "fs \<Rightarrow> string \<Rightarrow> error + string" where
  "read_text files path =
     (case files path of
        None \<Rightarrow> Inl FileNotFoundError
      | Some data \<Rightarrow> Inr (universal_newlines data))"

text \<open>
  What the program needs from the system besides the files. \<open>tempfile\<close> is the error
  that creating or writing the temporary file raises, \<open>None\<close> when both succeed.
  \<open>pandoc\<close> is \<open>subprocess.run\<close> on the external engine: from the text of the temporary
  file, the output path and the file store it gives either the error raised because
  the engine could not be started, or the exit status of the engine and the file store
  that it leaves. \<open>readonly\<close> holds for the paths that cannot be opened for writing.
\<close>

record system =
  tempfile :: "error option"
  pandoc :: "string \<Rightarrow> string \<Rightarrow> fs \<Rightarrow> error + int \<times> fs"
  readonly :: "string \<Rightarrow> bool"

text \<open>
  \<open>convert_markdown_file\<close>. \<open>subprocess.run\<close> with \<open>check=True\<close> raises
  \<open>CalledProcessError\<close> for an exit status other than 0. The result is the error raised,
  if any, and the file store.
\<close>

definition convert_markdown_file ::
  "system \<Rightarrow> string \<Rightarrow> string \<Rightarrow> fs \<Rightarrow> error option \<times> fs" where
  "convert_markdown_file sys md_file org_file files =
     (case read_text files md_file of
        Inl e \<Rightarrow> (Some e, files)
      | Inr contents \<Rightarrow>
          (let markdown_contents = prepare_markdown_text contents
           in case tempfile sys of
                Some e \<Rightarrow> (Some e, files)
              | None \<Rightarrow>
                  (case pandoc sys markdown_contents org_file files of
                     Inl e \<Rightarrow> (Some e, files)
                   | Inr (returncode, files1) \<Rightarrow>
                       if returncode \<noteq> 0 then (Some (CalledProcessError returncode), files1)
                       else
                         (case read_text files1 org_file of
                            Inl e \<Rightarrow> (Some e, files1)
                          | Inr org_contents \<Rightarrow>
                              if readonly sys org_file then (Some PermissionError, files1)
                              else (None, files1(org_file \<mapsto>
                                      fix_links (restore_comments org_contents)))))))"

text \<open>
  The body of the second loop of \<open>convert_directory\<close> for one org file: the file is
  rewritten with what \<open>convert_file_links_to_id_links\<close> returns. \<open>write_text\<close> raises
  \<open>TypeError\<close> for a value that is not a \<open>str\<close>, before it opens the file.
\<close>

definition convert_links_in :: "string \<Rightarrow> (string \<rightharpoonup> string) \<Rightarrow> fs \<Rightarrow> error option \<times> fs" where
  "convert_links_in org_path nodes files =
     (case read_text files org_path of
        Inl e \<Rightarrow> (Some e, files)
      | Inr contents \<Rightarrow>
          (case convert_file_links_to_id_links contents nodes of
             None \<Rightarrow> (Some TypeError, files)
           | Some new_contents \<Rightarrow> (None, files(org_path \<mapsto> new_contents))))"

subsection \<open>Frontmatter\<close>

text \<open>A frontmatter value is a \<open>str\<close> or a list of \<open>str\<close>.\<close>

datatype pyval = Str string | Lst "string list"

fun is_list :: "pyval \<Rightarrow> bool" where
  "is_list (Str s) = False"
| "is_list (Lst xs) = True"

text \<open>\<open>s[1:-1]\<close> of a non-empty \<open>s\<close> is \<open>butlast (tl s)\<close>.\<close>

definition maybeSplitList :: "string \<Rightarrow> pyval" where
  "maybeSplitList s =
     (if length s > 0 \<and> (prefix ''['' s \<or> CHR '','' \<in> set s)
      then Lst (findall TOKEN_RE (if prefix ''['' s then butlast (tl s) else s))
      else Str s)"

text \<open>
  The dictionary, in insertion order. \<open>fm_get\<close> is the lookup of the
  \<open>defaultdict(lambda: "")\<close>.
\<close>

type_synonym frontmatter = "(string \<times> pyval) list"

definition fm_get :: "frontmatter \<Rightarrow> string \<Rightarrow> pyval" where
  "fm_get fm key = (case map_of fm key of None \<Rightarrow> Str [] | Some v \<Rightarrow> v)"

text \<open>The loop of \<open>get_keys\<close> over \<open>lines[1:]\<close>.\<close>

fun get_keys_loop :: "string list \<Rightarrow> frontmatter \<Rightarrow> frontmatter" where
  "get_keys_loop [] frontmatter = frontmatter"
| "get_keys_loop (line # lines) frontmatter =
     (if line = ''---\<newline>'' then frontmatter
      else
        (let key = hd (py_split '':'' line);
             val = py_strip (py_join '':'' (tl (py_split '':'' line)))
         in if val = [] then get_keys_loop lines frontmatter
            else
              (let val = (if key \<noteq> ''title'' then maybeSplitList val else Str val);
                   val = (if key \<in> set [''tags'', ''aliases''] \<and> \<not> is_list val
                          then (case val of Str v \<Rightarrow> Lst [v] | Lst vs \<Rightarrow> Lst vs)
                          else val)
               in get_keys_loop lines (AList.update key val frontmatter))))"

definition get_keys :: "string \<Rightarrow> frontmatter" where
  "get_keys content =
     (let lines = py_split ''\<newline>'' content
      in if lines = [] \<or> hd lines \<noteq> ''---'' then [] else get_keys_loop (tl lines) [])"

subsection \<open>The header of a note\<close>

text \<open>What iterating over a value yields: the characters of a \<open>str\<close>, the elements of a list.\<close>

fun items :: "pyval \<Rightarrow> string list" where
  "items (Str s) = map (\<lambda>ch. [ch]) s"
| "items (Lst xs) = xs"

text \<open>
  \<open>repr\<close> of a \<open>str\<close>, for code points below 256: single quotes, or double quotes when
  the text has a single quote and no double quote; the backslash, the quote, tab,
  newline and carriage return escaped; any other character that is not printable
  written as \<^verbatim>\<open>\xhh\<close>. \<open>CHR 0x27\<close> is the single quote.
\<close>

definition hex_digit :: "nat \<Rightarrow> char" where
  "hex_digit n = ''0123456789abcdef'' ! (n mod 16)"

definition py_isprintable :: "char \<Rightarrow> bool" where
  "py_isprintable ch \<longleftrightarrow>
     (let n = (of_char ch :: nat) in (32 \<le> n \<and> n < 127) \<or> (161 \<le> n \<and> n \<noteq> 173))"

definition repr_char :: "char \<Rightarrow> char \<Rightarrow> string" where
  "repr_char quote ch =
     (if ch = CHR 0x5C \<or> ch = quote then [CHR 0x5C, ch]
      else if ch = CHR 0x09 then [CHR 0x5C, CHR ''t'']
      else if ch = CHR 0x0A then [CHR 0x5C, CHR ''n'']
      else if ch = CHR 0x0D then [CHR 0x5C, CHR ''r'']
      else if \<not> py_isprintable ch
      then [CHR 0x5C, CHR ''x'', hex_digit (of_char ch div 16), hex_digit (of_char ch)]
      else [ch])"

definition py_repr :: "string \<Rightarrow> string" where
  "py_repr s =
     (let quote = (if CHR 0x27 \<in> set s \<and> CHR 0x22 \<notin> set s then CHR 0x22 else CHR 0x27)
      in [quote] @ concat (map (repr_char quote) s) @ [quote])"

text \<open>A value formatted inside an f-string.\<close>

fun py_str :: "pyval \<Rightarrow> string" where
  "py_str (Str s) = s"
| "py_str (Lst xs) = ''['' @ py_join '', '' (map py_repr xs) @ '']''"

text \<open>
  The title that \<open>add_node_id\<close> computes. A list has no \<open>startswith\<close>, so a \<open>title\<close> that is
  a list raises \<open>AttributeError\<close>.
\<close>

definition node_title :: "string \<Rightarrow> frontmatter \<Rightarrow> error + string" where
  "node_title basename frontmatter =
     (if map_of frontmatter ''title'' \<noteq> None \<and> \<not> prefix ''@'' basename then
        (case fm_get frontmatter ''title'' of
           Lst ts \<Rightarrow> Inl AttributeError
         | Str title \<Rightarrow> Inr (if prefix [CHR 0x22] title then butlast (tl title) else title))
      else Inr basename)"

text \<open>The lines written from \<^verbatim>\<open>:PROPERTIES:\<close> to \<^verbatim>\<open>:END:\<close>.\<close>

definition properties_drawer :: "string \<Rightarrow> string \<Rightarrow> frontmatter \<Rightarrow> string" where
  "properties_drawer basename node_id frontmatter =
     (let aliases = py_join '' '' (items (fm_get frontmatter ''aliases''))
      in '':PROPERTIES:\<newline>'' @
         '':ID: '' @ node_id @ ''\<newline>'' @
         (if aliases \<noteq> [] then '':ROAM_ALIASES: '' @ aliases @ ''\<newline>'' else []) @
         (if prefix ''@'' basename then '':ROAM_REFS: [cite:'' @ basename @ '']\<newline>'' else []) @
         '':END:\<newline>'')"

text \<open>The lines written after the title: \<^verbatim>\<open>#+created:\<close> and \<^verbatim>\<open>#+filetags:\<close>.\<close>

definition keyword_lines :: "frontmatter \<Rightarrow> string" where
  "keyword_lines frontmatter =
     (let tags = py_join '':'' (items (fm_get frontmatter ''tags''))
      in (case map_of frontmatter ''date-created'' of
            None \<Rightarrow> []
          | Some created \<Rightarrow> ''#+created: ['' @ py_str created @ '']\<newline>'') @
         (if tags \<noteq> [] then ''#+filetags: :'' @ tags @ '':\<newline>'' else []))"

definition add_node_id ::
  "system \<Rightarrow> string \<Rightarrow> string \<Rightarrow> frontmatter \<Rightarrow> fs \<Rightarrow> error option \<times> fs" where
  "add_node_id sys org_file node_id frontmatter files =
     (case read_text files org_file of
        Inl e \<Rightarrow> (Some e, files)
      | Inr contents \<Rightarrow>
          (let basename = path_stem org_file
           in case node_title basename frontmatter of
                Inl e \<Rightarrow> (Some e, files)
              | Inr title \<Rightarrow>
                  if readonly sys org_file then (Some PermissionError, files)
                  else (None, files(org_file \<mapsto>
                          properties_drawer basename node_id frontmatter @
                          ''#+title: '' @ title @ ''\<newline>'' @
                          keyword_lines frontmatter @
                          ''\<newline>\<newline>'' @ contents))))"

subsection \<open>Systems, lines and pattern languages used in the statements\<close>

text \<open>
  A system on which every step succeeds: the engine exits with status 0 and writes its
  input as the org file.
\<close>

definition working :: system where
  "working =
     \<lparr>tempfile = None,
      pandoc = (\<lambda>markdown org_file files. Inr (0, files(org_file \<mapsto> markdown))),
      readonly = (\<lambda>path. False)\<rparr>"

text \<open>A system whose engine exits with status 64 and writes nothing.\<close>

definition failing :: system where
  "failing =
     \<lparr>tempfile = None,
      pandoc = (\<lambda>markdown org_file files. Inr (64, files)),
      readonly = (\<lambda>path. False)\<rparr>"

text \<open>A system without the engine: \<open>subprocess.run\<close> finds no program to start.\<close>

definition no_pandoc :: system where
  "no_pandoc =
     \<lparr>tempfile = None,
      pandoc = (\<lambda>markdown org_file files. Inl FileNotFoundError),
      readonly = (\<lambda>path. False)\<rparr>"

text \<open>
  The exit status of the engine run that \<open>convert_markdown_file\<close> starts; \<open>None\<close> when no
  run gives one.
\<close>

definition pandoc_status :: "system \<Rightarrow> string \<Rightarrow> string \<Rightarrow> fs \<Rightarrow> int option" where
  "pandoc_status sys md_file org_file files =
     (case read_text files md_file of
        Inl e \<Rightarrow> None
      | Inr contents \<Rightarrow>
          (case tempfile sys of
             Some e \<Rightarrow> None
           | None \<Rightarrow>
               (case pandoc sys (prepare_markdown_text contents) org_file files of
                  Inl e \<Rightarrow> None
                | Inr (returncode, files1) \<Rightarrow> Some returncode)))"

text \<open>
  The key and the value that the loop of \<open>get_keys\<close> reads from a line: the text before
  the first colon, and the text after it without the whitespace around it.
\<close>

definition line_key :: "string \<Rightarrow> string" where
  "line_key line = hd (py_split '':'' line)"

definition line_val :: "string \<Rightarrow> string" where
  "line_val line = py_strip (py_join '':'' (tl (py_split '':'' line)))"

text \<open>The texts that a pattern can match, whatever the order of the attempts.\<close>

fun lang :: "re \<Rightarrow> string set" where
  "lang (Lit l) = {l}"
| "lang (Neg cs) = {[x] | x. x \<notin> set cs}"
| "lang (Seq a b) = {u @ v | u v. u \<in> lang a \<and> v \<in> lang b}"
| "lang (Alt a b) = lang a \<union> lang b"
| "lang (Star a) = {concat ws | ws. set ws \<subseteq> lang a}"
| "lang (StarLazy a) = {concat ws | ws. set ws \<subseteq> lang a}"
| "lang (Grp n a) = lang a"

section \<open>Link resolution\<close>

text \<open>
  C1. Link resolution should rewrite \<^verbatim>\<open>[[file:X.org][Y]]\<close> to \<^verbatim>\<open>[[id:Z][Y]]\<close> when the table
  maps \<open>X\<close> to \<open>Z\<close>, and return everything else unchanged. The function returns no text
  at all: for the table that maps \<open>Note A\<close> to \<open>ID1\<close> and a link to \<open>Note A\<close> the result
  is \<open>None\<close>, and the second pass of \<open>convert_directory\<close>, which writes that result to
  the org file, raises \<open>TypeError\<close> and leaves the file as it was.
\<close>

theorem convert_file_links_returns_nothing:
  "convert_file_links_to_id_links ''See [[file:Note A.org][Note A]].'' [''Note A'' \<mapsto> ''ID1''] = None
   \<and> fst (convert_links_in ''a.org'' [''Note A'' \<mapsto> ''ID1'']
            [''a.org'' \<mapsto> ''See [[file:Note A.org][Note A]].'']) = Some TypeError
   \<and> snd (convert_links_in ''a.org'' [''Note A'' \<mapsto> ''ID1'']
            [''a.org'' \<mapsto> ''See [[file:Note A.org][Note A]].'']) ''a.org''
       = Some ''See [[file:Note A.org][Note A]].''"
  by (simp add: convert_file_links_to_id_links_def convert_links_in_def read_text_def)

section \<open>Frontmatter\<close>

text \<open>
  C2. The frontmatter extractor should stop at the closing \<^verbatim>\<open>---\<close> line. The lines come
  from a split at the newline, so none of them ends in a newline and the test for the
  closing line never succeeds: the key \<open>body\<close> of a line after the closing delimiter is
  in the result.
\<close>

theorem get_keys_reads_past_closing_delimiter:
  "get_keys ''---\<newline>title: A\<newline>---\<newline>body: text\<newline>''
     = [(''title'', Str ''A''), (''body'', Str ''text'')]"
  by code_simp

lemma maybeSplitList_examples:
  "maybeSplitList ''[a, b'' = Lst [''a'']" "maybeSplitList ''[a, b]'' = Lst [''a'', ''b'']"
  by code_simp+

text \<open>
  C9. For a value that starts with \<^verbatim>\<open>[\<close>, \<open>maybeSplitList\<close> drops the first and the last
  character before it tokenizes, whatever the last character is: the tokens of
  \<^verbatim>\<open>[\<close> \<open>body\<close> \<open>c\<close> are those of \<open>body\<close> for every character \<open>c\<close>. So \<^verbatim>\<open>[a, b\<close>, without
  its closing bracket, loses the \<open>b\<close> that \<^verbatim>\<open>[a, b]\<close> keeps.
\<close>

theorem maybeSplitList_strips_both_ends:
  assumes "prefix ''['' s"
  shows "maybeSplitList s = Lst (findall TOKEN_RE (butlast (tl s)))
    \<and> maybeSplitList (CHR ''['' # body @ [c]) = Lst (findall TOKEN_RE body)
    \<and> maybeSplitList ''[a, b]'' = Lst [''a'', ''b'']
    \<and> maybeSplitList ''[a, b'' = Lst [''a'']"
proof -
  from assms have "maybeSplitList s = Lst (findall TOKEN_RE (butlast (tl s)))"
    by (auto simp: maybeSplitList_def prefix_def)
  moreover have "maybeSplitList (CHR ''['' # body @ [c]) = Lst (findall TOKEN_RE body)"
    by (simp add: maybeSplitList_def butlast_append)
  ultimately show ?thesis using maybeSplitList_examples by blast
qed

theorem maybeSplitList_strips_both_ends_witness:
  "prefix ''['' ''[a, b'' \<and> maybeSplitList ''[a, b'' = Lst (findall TOKEN_RE ''a, '')
   \<and> maybeSplitList ''[a, b'' = Lst [''a'']"
proof -
  have p: "prefix ''['' ''[a, b''" by simp
  from p maybeSplitList_strips_both_ends [OF p, of "''a, ''" "CHR ''b''"]
  show ?thesis by auto
qed

lemma py_split_not_Nil: "py_split sep s \<noteq> []"
  by (induction sep s rule: py_split.induct) (auto split: list.splits)

lemma py_split_char_free: "l \<in> set (py_split [c] s) \<Longrightarrow> c \<notin> set l"
proof (induction "[c]" s arbitrary: l rule: py_split.induct)
  case 1
  then show ?case by simp
next
  case (2 x xs)
  show ?case
  proof (cases "x = c")
    case True
    with 2 show ?thesis by auto
  next
    case False
    obtain h t where ht: "py_split [c] xs = h # t"
      using py_split_not_Nil [of "[c]" xs] by (cases "py_split [c] xs") auto
    with False "2.prems" have "l = x # h \<or> l \<in> set t" by auto
    with False "2.hyps"(2) ht show ?thesis by auto
  qed
qed

lemma get_keys_loop_lookup:
  assumes "''---\<newline>'' \<notin> set lines"
  shows "map_of (get_keys_loop lines fm) key =
     (case filter (\<lambda>line. line_key line = key \<and> line_val line \<noteq> []) lines of
        [] \<Rightarrow> map_of fm key
      | l # ls \<Rightarrow>
          (let val = line_val (last (l # ls))
           in Some (if key = ''title'' then Str val
                    else if key = ''tags'' \<or> key = ''aliases''
                    then (case maybeSplitList val of Str s \<Rightarrow> Lst [s] | Lst xs \<Rightarrow> Lst xs)
                    else maybeSplitList val)))"
  using assms
proof (induction lines arbitrary: fm)
  case Nil
  then show ?case by simp
next
  case (Cons line lines)
  let ?P = "\<lambda>line. line_key line = key \<and> line_val line \<noteq> []"
  from Cons.prems have ne: "line \<noteq> ''---\<newline>''" and rest: "''---\<newline>'' \<notin> set lines" by auto
  note IH = Cons.IH [OF rest]
  show ?case
  proof (cases "line_val line = []")
    case True
    then have "get_keys_loop (line # lines) fm = get_keys_loop lines fm"
      using ne by (simp add: line_val_def Let_def)
    with True IH [of fm] show ?thesis by simp
  next
    case False
    define v1 where "v1 = (if line_key line \<noteq> ''title'' then maybeSplitList (line_val line)
                           else Str (line_val line))"
    define v2 where "v2 = (if line_key line \<in> set [''tags'', ''aliases''] \<and> \<not> is_list v1
                           then (case v1 of Str v \<Rightarrow> Lst [v] | Lst vs \<Rightarrow> Lst vs) else v1)"
    have step: "get_keys_loop (line # lines) fm
        = get_keys_loop lines (AList.update (line_key line) v2 fm)"
      using ne False by (simp add: line_val_def line_key_def v1_def v2_def Let_def)
    have v2: "v2 = (if line_key line = ''title'' then Str (line_val line)
                    else if line_key line = ''tags'' \<or> line_key line = ''aliases''
                    then (case maybeSplitList (line_val line) of
                            Str s \<Rightarrow> Lst [s] | Lst xs \<Rightarrow> Lst xs)
                    else maybeSplitList (line_val line))"
      by (auto simp: v2_def v1_def split: pyval.splits)
    show ?thesis
    proof (cases "filter ?P lines")
      case Nil
      show ?thesis
      proof (cases "line_key line = key")
        case True
        with False Nil IH [of "AList.update (line_key line) v2 fm"] show ?thesis
          unfolding step by (simp add: update_conv' v2 Let_def)
      next
        case diff: False
        with Nil IH [of "AList.update (line_key line) v2 fm"] show ?thesis
          unfolding step by (simp add: update_conv')
      qed
    next
      case (Cons l ls)
      with IH [of "AList.update (line_key line) v2 fm"] show ?thesis
        unfolding step by (simp add: Let_def)
    qed
  qed
qed

lemma get_keys_lookup:
  assumes "hd (py_split ''\<newline>'' content) = ''---''"
  shows "map_of (get_keys content) key =
     (case filter (\<lambda>line. line_key line = key \<and> line_val line \<noteq> [])
             (tl (py_split ''\<newline>'' content)) of
        [] \<Rightarrow> None
      | l # ls \<Rightarrow>
          (let val = line_val (last (l # ls))
           in Some (if key = ''title'' then Str val
                    else if key = ''tags'' \<or> key = ''aliases''
                    then (case maybeSplitList val of Str s \<Rightarrow> Lst [s] | Lst xs \<Rightarrow> Lst xs)
                    else maybeSplitList val)))"
proof -
  have "''---\<newline>'' \<notin> set (py_split ''\<newline>'' content)"
    using py_split_char_free [of "''---\<newline>''" "CHR ''\<newline>''" content] by auto
  then have "''---\<newline>'' \<notin> set (tl (py_split ''\<newline>'' content))"
    by (auto dest: list.set_sel(2) [OF py_split_not_Nil])
  from get_keys_loop_lookup [OF this, of "[]" key] assms show ?thesis
    by (simp add: get_keys_def py_split_not_Nil split: list.splits)
qed

lemma get_keys_no_frontmatter:
  "hd (py_split ''\<newline>'' content) \<noteq> ''---'' \<Longrightarrow> get_keys content = []"
  by (simp add: get_keys_def Let_def)

lemma maybeSplitList_scalar:
  "\<not> prefix ''['' val \<Longrightarrow> CHR '','' \<notin> set val \<Longrightarrow> maybeSplitList val = Str val"
  by (simp add: maybeSplitList_def)

lemma get_keys_invariant:
  assumes "map_of (get_keys content) key = Some v"
  shows "(key = ''tags'' \<or> key = ''aliases'' \<longrightarrow> is_list v) \<and> (key = ''title'' \<longrightarrow> \<not> is_list v)"
proof (cases "hd (py_split ''\<newline>'' content) = ''---''")
  case True
  from get_keys_lookup [OF True, of key] assms show ?thesis
    by (auto simp: Let_def split: list.splits pyval.splits if_splits)
next
  case False
  with assms show ?thesis by (simp add: get_keys_no_frontmatter)
qed

lemma get_keys_examples:
  "get_keys ''---\<newline>tags: tag1\<newline>---\<newline>'' = [(''tags'', Lst [''tag1''])]"
  "get_keys ''---\<newline>tags: [t1,t2]\<newline>---\<newline>'' = [(''tags'', Lst [''t1'', ''t2''])]"
  "get_keys ''---\<newline>aliases: Other Name\<newline>---\<newline>'' = [(''aliases'', Lst [''Other Name''])]"
  "get_keys ''---\<newline>title: [a, b]\<newline>---\<newline>'' = [(''title'', Str ''[a, b]'')]"
  by code_simp+

text \<open>
  C3. What \<open>get_keys\<close> returns for a key, for every input text: nothing when the first
  line is not \<^verbatim>\<open>---\<close>; otherwise the value read from the last line with that key and a
  value that is not blank. For \<open>title\<close> it is the text of the value as it stands, never a
  list, also when it starts with \<^verbatim>\<open>[\<close> or has a comma. For \<open>tags\<close> and \<open>aliases\<close> it is
  the list that \<open>maybeSplitList\<close> makes of the value, and the list of the value alone when
  \<open>maybeSplitList\<close> gives a scalar, which it does for a value that neither starts with
  \<^verbatim>\<open>[\<close> nor has a comma. So a value of \<open>tags\<close> or \<open>aliases\<close> is always a list and a value
  of \<open>title\<close> never is. \<^verbatim>\<open>tags: tag1\<close> gives the list of \<open>tag1\<close> and \<^verbatim>\<open>tags: [t1,t2]\<close>
  the list of \<open>t1\<close> and \<open>t2\<close>.
\<close>

theorem get_keys_normalised:
  "(hd (py_split ''\<newline>'' content) \<noteq> ''---'' \<longrightarrow> get_keys content = [])
   \<and> (hd (py_split ''\<newline>'' content) = ''---'' \<longrightarrow>
        map_of (get_keys content) key =
          (case filter (\<lambda>line. line_key line = key \<and> line_val line \<noteq> [])
                  (tl (py_split ''\<newline>'' content)) of
             [] \<Rightarrow> None
           | l # ls \<Rightarrow>
               (let val = line_val (last (l # ls))
                in Some (if key = ''title'' then Str val
                         else if key = ''tags'' \<or> key = ''aliases''
                         then (case maybeSplitList val of Str s \<Rightarrow> Lst [s] | Lst xs \<Rightarrow> Lst xs)
                         else maybeSplitList val))))
   \<and> (map_of (get_keys content) key = Some v \<longrightarrow>
        (key = ''tags'' \<or> key = ''aliases'' \<longrightarrow> is_list v) \<and> (key = ''title'' \<longrightarrow> \<not> is_list v))
   \<and> (\<not> prefix ''['' val \<and> CHR '','' \<notin> set val \<longrightarrow> maybeSplitList val = Str val)
   \<and> get_keys ''---\<newline>tags: tag1\<newline>---\<newline>'' = [(''tags'', Lst [''tag1''])]
   \<and> get_keys ''---\<newline>tags: [t1,t2]\<newline>---\<newline>'' = [(''tags'', Lst [''t1'', ''t2''])]
   \<and> get_keys ''---\<newline>aliases: Other Name\<newline>---\<newline>'' = [(''aliases'', Lst [''Other Name''])]
   \<and> get_keys ''---\<newline>title: [a, b]\<newline>---\<newline>'' = [(''title'', Str ''[a, b]'')]"
  using get_keys_no_frontmatter [of content] get_keys_lookup [of content key]
    get_keys_invariant [of content key v] maybeSplitList_scalar [of val] get_keys_examples
  by blast

theorem get_keys_normalised_witness:
  "hd (py_split ''\<newline>'' ''---\<newline>aliases: Other Name\<newline>title: [a, b]\<newline>---\<newline>'') = ''---''
   \<and> \<not> prefix ''['' ''Other Name'' \<and> CHR '','' \<notin> set ''Other Name''
   \<and> map_of (get_keys ''---\<newline>aliases: Other Name\<newline>title: [a, b]\<newline>---\<newline>'') ''aliases''
       = Some (Lst [''Other Name''])
   \<and> is_list (Lst [''Other Name''])
   \<and> map_of (get_keys ''---\<newline>aliases: Other Name\<newline>title: [a, b]\<newline>---\<newline>'') ''title''
       = Some (Str ''[a, b]'')
   \<and> \<not> is_list (Str ''[a, b]'')"
proof -
  let ?c = "''---\<newline>aliases: Other Name\<newline>title: [a, b]\<newline>---\<newline>''"
  have first: "hd (py_split ''\<newline>'' ?c) = ''---''" by code_simp
  have scalar: "\<not> prefix ''['' ''Other Name''" "CHR '','' \<notin> set ''Other Name''" by simp_all
  have a: "filter (\<lambda>line. line_key line = ''aliases'' \<and> line_val line \<noteq> [])
             (tl (py_split ''\<newline>'' ?c)) = [''aliases: Other Name'']" by code_simp
  have t: "filter (\<lambda>line. line_key line = ''title'' \<and> line_val line \<noteq> [])
             (tl (py_split ''\<newline>'' ?c)) = [''title: [a, b]'']" by code_simp
  have va: "line_val ''aliases: Other Name'' = ''Other Name''" by code_simp
  have vt: "line_val ''title: [a, b]'' = ''[a, b]''" by code_simp
  note al = get_keys_normalised [of ?c "''aliases''" "Lst [''Other Name'']" "''Other Name''"]
  from al scalar have sc: "maybeSplitList ''Other Name'' = Str ''Other Name''" by blast
  from al first have "map_of (get_keys ?c) ''aliases'' =
      (case filter (\<lambda>line. line_key line = ''aliases'' \<and> line_val line \<noteq> [])
              (tl (py_split ''\<newline>'' ?c)) of
         [] \<Rightarrow> None
       | l # ls \<Rightarrow>
           (let val = line_val (last (l # ls))
            in Some (if ''aliases'' = ''title'' then Str val
                     else if ''aliases'' = ''tags'' \<or> ''aliases'' = ''aliases''
                     then (case maybeSplitList val of Str s \<Rightarrow> Lst [s] | Lst xs \<Rightarrow> Lst xs)
                     else maybeSplitList val)))"
    by blast
  then have 1: "map_of (get_keys ?c) ''aliases'' = Some (Lst [''Other Name''])"
    unfolding a by (simp add: va sc)
  note ti = get_keys_normalised [of ?c "''title''" "Str ''[a, b]''" "[]"]
  from ti first have "map_of (get_keys ?c) ''title'' =
      (case filter (\<lambda>line. line_key line = ''title'' \<and> line_val line \<noteq> [])
              (tl (py_split ''\<newline>'' ?c)) of
         [] \<Rightarrow> None
       | l # ls \<Rightarrow>
           (let val = line_val (last (l # ls))
            in Some (if ''title'' = ''title'' then Str val
                     else if ''title'' = ''tags'' \<or> ''title'' = ''aliases''
                     then (case maybeSplitList val of Str s \<Rightarrow> Lst [s] | Lst xs \<Rightarrow> Lst xs)
                     else maybeSplitList val)))"
    by blast
  then have 2: "map_of (get_keys ?c) ''title'' = Some (Str ''[a, b]'')"
    unfolding t by (simp add: vt)
  from first scalar 1 2 show ?thesis by simp
qed

section \<open>The conversion of one note\<close>

text \<open>
  C7, as stated: \<open>convert_markdown_file\<close> raises exactly when the engine exits with a
  status other than 0. It also raises when no engine run gives a status: when the
  Markdown file cannot be read, before any engine is started, and when the engine
  cannot be started.
\<close>

theorem convert_markdown_file_raises_without_exit_status:
  "fst (convert_markdown_file working ''missing.md'' ''out.org'' Map.empty) = Some FileNotFoundError
   \<and> pandoc_status working ''missing.md'' ''out.org'' Map.empty = None
   \<and> fst (convert_markdown_file no_pandoc ''a.md'' ''a.org'' [''a.md'' \<mapsto> ''hello''])
       = Some FileNotFoundError
   \<and> pandoc_status no_pandoc ''a.md'' ''a.org'' [''a.md'' \<mapsto> ''hello''] = None"
  by (simp add: convert_markdown_file_def pandoc_status_def read_text_def working_def
      no_pandoc_def)

text \<open>
  C7, amended. A run of the engine that exits with a status other than 0 makes
  \<open>convert_markdown_file\<close> raise \<open>CalledProcessError\<close>, and the files are then as the
  engine left them: no comment is restored, no link fixed and the org file is not
  rewritten. The call returns without an error only after a run that exits with
  status 0. It raises in other cases too: when the Markdown file cannot be read, when
  the temporary file cannot be made, when the engine cannot be started, and when the
  org file cannot be read or written after the run. Where all of these steps succeed,
  it raises exactly when the engine exits with a status other than 0, and otherwise
  rewrites the org file with its comments restored and its links fixed.
\<close>

theorem convert_markdown_file_raises:
  "(pandoc_status sys md_file org_file files = Some returncode \<and> returncode \<noteq> 0 \<longrightarrow>
      fst (convert_markdown_file sys md_file org_file files) = Some (CalledProcessError returncode))
   \<and> (fst (convert_markdown_file sys md_file org_file files) = None \<longrightarrow>
        pandoc_status sys md_file org_file files = Some 0)
   \<and> (read_text files md_file = Inl e \<longrightarrow>
        convert_markdown_file sys md_file org_file files = (Some e, files))
   \<and> (read_text files md_file = Inr contents \<and> tempfile sys = Some e \<longrightarrow>
        convert_markdown_file sys md_file org_file files = (Some e, files))
   \<and> (read_text files md_file = Inr contents \<and> tempfile sys = None \<and>
        pandoc sys (prepare_markdown_text contents) org_file files = Inl e \<longrightarrow>
        convert_markdown_file sys md_file org_file files = (Some e, files))
   \<and> (read_text files md_file = Inr contents \<and> tempfile sys = None \<and>
        pandoc sys (prepare_markdown_text contents) org_file files = Inr (returncode, files1) \<longrightarrow>
        (returncode \<noteq> 0 \<longrightarrow>
           convert_markdown_file sys md_file org_file files
             = (Some (CalledProcessError returncode), files1))
        \<and> (returncode = 0 \<and> read_text files1 org_file = Inl e \<longrightarrow>
             convert_markdown_file sys md_file org_file files = (Some e, files1))
        \<and> (returncode = 0 \<and> read_text files1 org_file = Inr org_contents \<and>
             readonly sys org_file \<longrightarrow>
             convert_markdown_file sys md_file org_file files = (Some PermissionError, files1))
        \<and> (read_text files1 org_file = Inr org_contents \<and> \<not> readonly sys org_file \<longrightarrow>
             (fst (convert_markdown_file sys md_file org_file files) \<noteq> None
                \<longleftrightarrow> returncode \<noteq> 0)
             \<and> (returncode = 0 \<longrightarrow>
                  convert_markdown_file sys md_file org_file files
                    = (None, files1(org_file \<mapsto> fix_links (restore_comments org_contents))))))"
  by (auto simp: convert_markdown_file_def pandoc_status_def
      split: sum.splits option.splits prod.splits if_splits)

theorem convert_markdown_file_raises_witness:
  "pandoc_status failing ''a.md'' ''a.org'' [''a.md'' \<mapsto> ''hello''] = Some 64
   \<and> convert_markdown_file failing ''a.md'' ''a.org'' [''a.md'' \<mapsto> ''hello'']
       = (Some (CalledProcessError 64), [''a.md'' \<mapsto> ''hello''])
   \<and> read_text [''a.md'' \<mapsto> ''hello''] ''a.md'' = Inr ''hello''
   \<and> tempfile working = None \<and> \<not> readonly working ''a.org''
   \<and> pandoc working (prepare_markdown_text ''hello'') ''a.org'' [''a.md'' \<mapsto> ''hello'']
       = Inr (0, [''a.md'' \<mapsto> ''hello'', ''a.org'' \<mapsto> ''hello''])
   \<and> read_text [''a.md'' \<mapsto> ''hello'', ''a.org'' \<mapsto> ''hello''] ''a.org'' = Inr ''hello''
   \<and> convert_markdown_file working ''a.md'' ''a.org'' [''a.md'' \<mapsto> ''hello'']
       = (None, [''a.md'' \<mapsto> ''hello'', ''a.org'' \<mapsto> ''hello''])"
proof -
  let ?files = "[''a.md'' \<mapsto> ''hello'']"
  let ?files1 = "[''a.md'' \<mapsto> ''hello'', ''a.org'' \<mapsto> ''hello'']"
  have p: "prepare_markdown_text ''hello'' = ''hello''" by code_simp
  have f: "fix_links (restore_comments ''hello'') = ''hello''" by code_simp
  have u: "universal_newlines ''hello'' = ''hello''" by code_simp
  have r: "read_text ?files ''a.md'' = Inr ''hello''" by (simp add: read_text_def u)
  have r1: "read_text ?files1 ''a.org'' = Inr ''hello''" by (simp add: read_text_def u)
  have t: "tempfile failing = None" "tempfile working = None" "\<not> readonly working ''a.org''"
    by (simp_all add: failing_def working_def)
  have bad: "pandoc failing (prepare_markdown_text ''hello'') ''a.org'' ?files = Inr (64, ?files)"
    by (simp add: failing_def)
  have ok: "pandoc working (prepare_markdown_text ''hello'') ''a.org'' ?files = Inr (0, ?files1)"
    by (simp add: working_def p)
  have st: "pandoc_status failing ''a.md'' ''a.org'' ?files = Some 64"
    by (simp add: pandoc_status_def r t bad)
  from convert_markdown_file_raises [of failing "''a.md''" "''a.org''" ?files 64 FileNotFoundError
      "''hello''" ?files "[]"] r t bad
  have a: "convert_markdown_file failing ''a.md'' ''a.org'' ?files
      = (Some (CalledProcessError 64), ?files)"
    by simp
  from convert_markdown_file_raises [of working "''a.md''" "''a.org''" ?files 0 FileNotFoundError
      "''hello''" ?files1 "''hello''"] r r1 t ok
  have b: "convert_markdown_file working ''a.md'' ''a.org'' ?files = (None, ?files1)"
    by (simp add: f)
  from st a r t ok r1 b show ?thesis by simp
qed

section \<open>The header of a note\<close>

text \<open>
  C4. For a base name that does not start with \<^verbatim>\<open>@\<close> the title written should be the
  frontmatter \<open>title\<close>, a surrounding pair of double quotes stripped if present.
  \<open>add_node_id\<close> looks at the first character only before it drops the first and the
  last one: a title that starts with a double quote and does not end with one has no
  surrounding pair, and loses its last character all the same. For the frontmatter
  title that is a double quote followed by \<open>Draft\<close> the line written is
  \<^verbatim>\<open>#+title: Draf\<close>.
\<close>

theorem add_node_id_unbalanced_quote:
  "get_keys (''---\<newline>title: '' @ [CHR 0x22] @ ''Draft\<newline>---\<newline>'')
      = [(''title'', Str (CHR 0x22 # ''Draft''))]
   \<and> fst (add_node_id working ''note.org'' ''ID''
          (get_keys (''---\<newline>title: '' @ [CHR 0x22] @ ''Draft\<newline>---\<newline>''))
          [''note.org'' \<mapsto> ''body'']) = None
   \<and> snd (add_node_id working ''note.org'' ''ID''
          (get_keys (''---\<newline>title: '' @ [CHR 0x22] @ ''Draft\<newline>---\<newline>''))
          [''note.org'' \<mapsto> ''body'']) ''note.org''
      = Some '':PROPERTIES:\<newline>:ID: ID\<newline>:END:\<newline>#+title: Draf\<newline>\<newline>\<newline>body''"
  by code_simp

text \<open>
  Everywhere else \<open>add_node_id\<close> writes the title described: for a note whose file can
  be read and written and whose base name does not start with \<^verbatim>\<open>@\<close>, a frontmatter
  \<open>title\<close> that does not start with a double quote is written as it is, and one between
  two double quotes is written without them; without a \<open>title\<close> the base name is
  written. If the base name starts with \<^verbatim>\<open>@\<close>, the title written is the base name
  whatever the frontmatter says, and the drawer has the \<^verbatim>\<open>:ROAM_REFS:\<close> line of the base
  name.
\<close>

lemma add_node_id_title:
  assumes "read_text files org_file = Inr contents" and "\<not> readonly sys org_file"
    and "basename = path_stem org_file"
  shows "(\<not> prefix ''@'' basename \<and> map_of frontmatter ''title'' = Some (Str t) \<and>
          \<not> prefix [CHR 0x22] t \<longrightarrow>
           add_node_id sys org_file node_id frontmatter files
             = (None, files(org_file \<mapsto>
                  properties_drawer basename node_id frontmatter @
                  ''#+title: '' @ t @ ''\<newline>'' @
                  keyword_lines frontmatter @ ''\<newline>\<newline>'' @ contents)))
    \<and> (\<not> prefix ''@'' basename \<and>
        map_of frontmatter ''title'' = Some (Str ([CHR 0x22] @ u @ [CHR 0x22])) \<longrightarrow>
           add_node_id sys org_file node_id frontmatter files
             = (None, files(org_file \<mapsto>
                  properties_drawer basename node_id frontmatter @
                  ''#+title: '' @ u @ ''\<newline>'' @
                  keyword_lines frontmatter @ ''\<newline>\<newline>'' @ contents)))
    \<and> (prefix ''@'' basename \<or> map_of frontmatter ''title'' = None \<longrightarrow>
           add_node_id sys org_file node_id frontmatter files
             = (None, files(org_file \<mapsto>
                  properties_drawer basename node_id frontmatter @
                  ''#+title: '' @ basename @ ''\<newline>'' @
                  keyword_lines frontmatter @ ''\<newline>\<newline>'' @ contents)))
    \<and> (prefix ''@'' basename \<longrightarrow>
           sublist ('':ROAM_REFS: [cite:'' @ basename @ '']\<newline>'')
                   (properties_drawer basename node_id frontmatter))"
proof -
  have refs: "sublist ('':ROAM_REFS: [cite:'' @ basename @ '']\<newline>'')
                   (properties_drawer basename node_id frontmatter)" if "prefix ''@'' basename"
  proof -
    let ?r = "'':ROAM_REFS: [cite:'' @ basename @ '']\<newline>''"
    let ?a = "py_join '' '' (items (fm_get frontmatter ''aliases''))"
    have "properties_drawer basename node_id frontmatter
        = ('':PROPERTIES:\<newline>'' @ '':ID: '' @ node_id @ ''\<newline>'' @
           (if ?a \<noteq> [] then '':ROAM_ALIASES: '' @ ?a @ ''\<newline>'' else [])) @ ?r @ '':END:\<newline>''"
      using that by (simp add: properties_drawer_def Let_def)
    then show ?thesis by (simp only: sublist_appendI)
  qed
  show ?thesis
    using assms refs
    by (auto simp: add_node_id_def node_title_def fm_get_def butlast_append Let_def)
qed

section \<open>Comments\<close>

lemma py_split_sep_append: "sep \<noteq> [] \<Longrightarrow> py_split sep (sep @ r) = [] # py_split sep r"
  by (cases sep) auto

lemma py_split_skip:
  "\<not> (sep \<noteq> [] \<and> prefix sep (c # cs)) \<Longrightarrow>
     py_split sep (c # cs) = (c # hd (py_split sep cs)) # tl (py_split sep cs)"
  using py_split_not_Nil [of sep cs] by (auto split: list.splits)

lemma py_join_Cons: "xs \<noteq> [] \<Longrightarrow> py_join sep (x # xs) = x @ sep @ py_join sep xs"
  by (cases xs) auto

lemma py_join_snoc: "xs \<noteq> [] \<Longrightarrow> py_join sep (xs @ [x]) = py_join sep xs @ sep @ x"
  by (induction sep xs rule: py_join.induct) auto

lemma py_join_split: "py_join sep (py_split sep s) = s"
proof (induction sep s rule: py_split.induct)
  case (1 sep)
  then show ?case by simp
next
  case (2 sep c cs)
  show ?case
  proof (cases "sep \<noteq> [] \<and> prefix sep (c # cs)")
    case True
    then obtain r where r: "c # cs = sep @ r" by (auto simp: prefix_def)
    with True 2 show ?thesis
      by (simp add: py_join_Cons py_split_not_Nil py_split_sep_append)
  next
    case False
    obtain h t where ht: "py_split sep cs = h # t"
      using py_split_not_Nil [of sep cs] by (cases "py_split sep cs") auto
    with False 2 show ?thesis by (cases t) auto
  qed
qed

lemma length_py_split: "length (py_split sep s) = Suc (py_count sep s)"
proof (induction sep s rule: py_split.induct)
  case (1 sep)
  then show ?case by simp
next
  case (2 sep c cs)
  then show ?case by (auto split: list.splits)
qed

lemma py_count_last_split: "py_count sep (last (py_split sep s)) = 0"
proof (induction sep s rule: py_split.induct)
  case (1 sep)
  then show ?case by simp
next
  case (2 sep c cs)
  show ?case
  proof (cases "sep \<noteq> [] \<and> prefix sep (c # cs)")
    case True
    with 2 show ?thesis by (simp add: py_split_not_Nil)
  next
    case False
    obtain h t where ht: "py_split sep cs = h # t"
      using py_split_not_Nil [of sep cs] by (cases "py_split sep cs") auto
    show ?thesis
    proof (cases t)
      case Nil
      with ht have "cs = h" using py_join_split [of sep cs] by simp
      with False 2 ht Nil show ?thesis by auto
    next
      case (Cons a list)
      with False 2 ht show ?thesis by auto
    qed
  qed
qed

lemma py_split_butlast:
  "2 \<le> length (py_split sep s) \<Longrightarrow>
     py_split sep (py_join sep (butlast (py_split sep s))) = butlast (py_split sep s)"
proof (induction sep s rule: py_split.induct)
  case (1 sep)
  then show ?case by simp
next
  case (2 sep c cs)
  show ?case
  proof (cases "sep \<noteq> [] \<and> prefix sep (c # cs)")
    case True
    let ?R = "py_split sep (drop (length sep) (c # cs))"
    have split: "py_split sep (c # cs) = [] # ?R" using True by simp
    show ?thesis
    proof (cases "2 \<le> length ?R")
      case True
      then have ne: "butlast ?R \<noteq> []" by (cases ?R rule: rev_cases) auto
      from "2.IH"(1) [OF \<open>sep \<noteq> [] \<and> prefix sep (c # cs)\<close> True]
      show ?thesis unfolding split using ne \<open>sep \<noteq> [] \<and> prefix sep (c # cs)\<close>
        by (simp add: py_split_not_Nil py_join_Cons py_split_sep_append)
    next
      case False
      then obtain x where "?R = [x]"
        using py_split_not_Nil [of sep "drop (length sep) (c # cs)"]
        by (cases ?R) (auto simp: Suc_le_eq)
      then show ?thesis unfolding split by simp
    qed
  next
    case False
    obtain h t where ht: "py_split sep cs = h # t"
      using py_split_not_Nil [of sep cs] by (cases "py_split sep cs") auto
    have split: "py_split sep (c # cs) = (c # h) # t" using False ht by auto
    from "2.prems" split have t: "t \<noteq> []" by auto
    then have len: "2 \<le> length (py_split sep cs)" using ht by (cases t) auto
    let ?J = "py_join sep (butlast (h # t))"
    have IH: "py_split sep ?J = butlast (h # t)"
      using "2.IH"(2) [OF False len] ht by simp
    have bl: "butlast (h # t) = h # butlast t" using t by simp
    have J: "py_join sep (butlast ((c # h) # t)) = c # ?J"
      using t by (cases "butlast t") (auto simp: bl)
    have cs: "cs = ?J @ sep @ last t"
    proof -
      have "py_join sep (h # t) = cs"
        using py_join_split [of sep cs] ht by simp
      moreover have "h # t = butlast (h # t) @ [last (h # t)]"
        by simp
      ultimately have "cs = py_join sep (butlast (h # t) @ [last (h # t)])"
        by (simp only:)
      also have "\<dots> = ?J @ sep @ last (h # t)"
        by (rule py_join_snoc) (use t in simp)
      finally show ?thesis using t by simp
    qed
    have "\<not> (sep \<noteq> [] \<and> prefix sep (c # ?J))"
    proof
      assume a: "sep \<noteq> [] \<and> prefix sep (c # ?J)"
      then have "prefix sep ((c # ?J) @ sep @ last t)" using prefix_prefix by blast
      with a cs False show False by simp
    qed
    then have step: "py_split sep (c # ?J) = (c # hd (py_split sep ?J)) # tl (py_split sep ?J)"
      by (rule py_split_skip)
    have "py_split sep (py_join sep (butlast ((c # h) # t))) = py_split sep (c # ?J)"
      by (simp only: J)
    also have "\<dots> = (c # hd (butlast (h # t))) # tl (butlast (h # t))"
      using step by (simp only: IH)
    also have "\<dots> = (c # h) # butlast t"
      by (simp only: bl list.sel)
    also have "\<dots> = butlast ((c # h) # t)"
      using t by simp
    finally show ?thesis by (simp only: split)
  qed
qed

lemma comment_loop_append:
  "comment_loop inside (xs @ ys)
     = comment_loop inside xs @ comment_loop (if even (length xs) then inside else \<not> inside) ys"
  by (induction inside xs rule: comment_loop.induct) auto

lemma splitlines_keep_Nil_iff: "splitlines_keep s = [] \<longleftrightarrow> s = []"
proof (cases s)
  case Nil
  then show ?thesis by (simp add: splitlines_keep.simps(1))
next
  case (Cons c cs)
  then show ?thesis
    by (cases cs; cases "splitlines_keep cs") (simp_all add: splitlines_keep.simps(2) [of c])
qed

lemma comment_chunk_concat:
  "concat (comment_chunk body)
     = (if CHR 0x0A \<in> set body
        then concat (map (\<lambda>line. COMMENT_MARKER @ line)
               (if py_strip (hd (splitlines_keep body)) = [] then tl (splitlines_keep body)
                else splitlines_keep body))
        else ''<!--'' @ body @ ''-->'')"
proof (cases "CHR 0x0A \<in> set body")
  case True
  then have "splitlines_keep body \<noteq> []" by (auto simp: splitlines_keep_Nil_iff)
  with True show ?thesis by (simp add: comment_chunk_def Let_def)
next
  case False
  then show ?thesis by (simp add: comment_chunk_def)
qed

text \<open>
  C10. For a text with an odd number of \<^verbatim>\<open>%%\<close> markers, \<open>fix_markdown_comments\<close> takes all
  the text after the last marker as a comment: the text is the part before the last
  marker, the marker and a \<open>body\<close> without a marker; the result is the result for the
  part before, followed by the lines of \<open>body\<close>, each after the sentinel and the first
  one dropped when blank, if \<open>body\<close> has a newline, and by \<open>body\<close> between \<^verbatim>\<open><!--\<close> and
  \<^verbatim>\<open>-->\<close> otherwise.
\<close>

theorem unterminated_comment:
  assumes "odd (py_count ''%%'' contents)"
  shows "let chunks = py_split ''%%'' contents;
             pre = py_join ''%%'' (butlast chunks);
             body = last chunks
         in contents = pre @ ''%%'' @ body \<and> py_count ''%%'' body = 0 \<and>
            fix_markdown_comments contents
              = fix_markdown_comments pre @
                (if CHR 0x0A \<in> set body
                 then concat (map (\<lambda>line. COMMENT_MARKER @ line)
                        (if py_strip (hd (splitlines_keep body)) = []
                         then tl (splitlines_keep body) else splitlines_keep body))
                 else ''<!--'' @ body @ ''-->'')"
proof -
  define chunks where "chunks = py_split ''%%'' contents"
  define pre where "pre = py_join ''%%'' (butlast chunks)"
  define body where "body = last chunks"
  have len: "length chunks = Suc (py_count ''%%'' contents)"
    by (simp add: chunks_def length_py_split)
  with assms have even: "even (length chunks)" and two: "2 \<le> length chunks"
    by (auto elim: oddE)
  from two have ne: "butlast chunks \<noteq> []" by (cases chunks rule: rev_cases) auto
  have snoc: "chunks = butlast chunks @ [body]"
    using two by (cases chunks rule: rev_cases) (auto simp: body_def)
  have "contents = py_join ''%%'' chunks"
    by (simp add: chunks_def py_join_split)
  then have "contents = py_join ''%%'' (butlast chunks @ [body])"
    by (simp only: snoc [symmetric])
  then have decomp: "contents = pre @ ''%%'' @ body"
    by (simp only: py_join_snoc [OF ne] pre_def)
  have none: "py_count ''%%'' body = 0"
    by (simp add: body_def chunks_def py_count_last_split)
  have pre_chunks: "py_split ''%%'' pre = butlast chunks"
    using py_split_butlast [of "''%%''" contents] two by (simp add: pre_def chunks_def)
  have odd_pre: "odd (length (butlast chunks))"
    using even two by (cases chunks rule: rev_cases) auto
  have "fix_markdown_comments contents = concat (comment_loop False chunks)"
    by (simp add: fix_markdown_comments_def chunks_def)
  then have "fix_markdown_comments contents
      = concat (comment_loop False (butlast chunks @ [body]))"
    by (simp only: snoc [symmetric])
  also have "\<dots> = concat (comment_loop False (butlast chunks)) @ concat (comment_chunk body)"
    using odd_pre by (simp add: comment_loop_append)
  also have "\<dots> = fix_markdown_comments pre @ concat (comment_chunk body)"
    by (simp add: fix_markdown_comments_def pre_chunks)
  finally have "fix_markdown_comments contents
      = fix_markdown_comments pre @ concat (comment_chunk body)" .
  then have fin: "fix_markdown_comments contents
      = fix_markdown_comments pre @
        (if CHR 0x0A \<in> set body
         then concat (map (\<lambda>line. COMMENT_MARKER @ line)
                (if py_strip (hd (splitlines_keep body)) = []
                 then tl (splitlines_keep body) else splitlines_keep body))
         else ''<!--'' @ body @ ''-->'')"
    by (simp only: comment_chunk_concat)
  show ?thesis
    unfolding Let_def chunks_def [symmetric] pre_def [symmetric] body_def [symmetric]
    using decomp none fin by blast
qed

lemma concat_splitlines_keep: "concat (splitlines_keep s) = s"
proof (induction s rule: splitlines_keep.induct)
  case 1
  then show ?case by (simp add: splitlines_keep.simps(1))
next
  case (2 c cs)
  show ?case
  proof (cases "is_linebreak c")
    case True
    show ?thesis
    proof (cases cs)
      case Nil
      with True show ?thesis by (subst splitlines_keep.simps(2)) simp
    next
      case (Cons d ds)
      show ?thesis
      proof (cases "c = CHR 0x0D \<and> d = CHR 0x0A")
        case crlf: True
        have "splitlines_keep (c # cs) = [c, d] # splitlines_keep ds"
          using True Cons crlf by (subst splitlines_keep.simps(2)) simp
        with "2.IH"(1) [OF True Cons crlf] Cons show ?thesis by simp
      next
        case False
        have "splitlines_keep (c # cs) = [c] # splitlines_keep cs"
          using True Cons False by (subst splitlines_keep.simps(2)) simp
        with "2.IH"(2) [OF True Cons False] show ?thesis by simp
      qed
    qed
  next
    case False
    have "splitlines_keep (c # cs)
        = (case splitlines_keep cs of [] \<Rightarrow> [[c]] | l # ls \<Rightarrow> (c # l) # ls)"
      using False by (subst splitlines_keep.simps(2)) simp
    with "2.IH"(3) [OF False] show ?thesis
      by (cases "splitlines_keep cs") auto
  qed
qed

lemma prefix_of_append_last:
  assumes "prefix old (a @ b)" "a \<noteq> []" "last a \<notin> set old"
  shows "prefix old a"
proof -
  from assms(1) consider "prefix old a" | us where "old = a @ us"
    by (auto simp: prefix_append)
  then show ?thesis
  proof cases
    case 1
    then show ?thesis .
  next
    case 2
    with assms(2) have "last a \<in> set old" by simp
    with assms(3) show ?thesis by simp
  qed
qed

lemma py_replace_append:
  "a \<noteq> [] \<Longrightarrow> last a \<notin> set old \<Longrightarrow> old \<noteq> [] \<Longrightarrow>
     py_replace old new (a @ b) = py_replace old new a @ py_replace old new b"
proof (induction old new a rule: py_replace.induct)
  case (1 old new)
  then show ?case by simp
next
  case (2 old new c cs)
  show ?case
  proof (cases "prefix old (c # cs)")
    case True
    define r where "r = drop (length old) (c # cs)"
    from True have r: "c # cs = old @ r"
      unfolding r_def by (metis append_take_drop_id prefix_def append_eq_conv_conj)
    have rne: "r \<noteq> []"
    proof
      assume "r = []"
      with r have "last (c # cs) = last old" by (simp only: append_Nil2)
      moreover have "last old \<in> set old" using "2.prems"(3) by simp
      ultimately show False using "2.prems"(2) by simp
    qed
    have lr: "last r = last (c # cs)"
    proof -
      have "last (old @ r) = last r" using rne by (rule last_appendR)
      then show ?thesis by (simp only: r)
    qed
    have IH: "py_replace old new (r @ b) = py_replace old new r @ py_replace old new b"
    proof -
      have "last r \<notin> set old" using "2.prems"(2) by (simp add: lr)
      with "2.IH"(2) [OF "2.prems"(3) True, folded r_def] rne "2.prems"(3) show ?thesis
        by blast
    qed
    have len: "length old \<le> length (c # cs)"
      using True by (rule prefix_length_le)
    have dr: "drop (length old) (c # cs @ b) = r @ b"
    proof -
      have "drop (length old) ((c # cs) @ b) = drop (length old) (c # cs) @ b"
        using len by (simp only: drop_append) simp
      then show ?thesis unfolding r_def by simp
    qed
    have pa: "prefix old (c # cs @ b)"
      using True prefix_prefix [of old "c # cs" b] by simp
    have "py_replace old new ((c # cs) @ b) = new @ py_replace old new (r @ b)"
      using pa "2.prems"(3) by (simp add: dr del: drop_Cons')
    moreover have "py_replace old new (c # cs) = new @ py_replace old new r"
      using True "2.prems"(3) by (simp add: r_def)
    ultimately show ?thesis using IH by (simp only: append_assoc)
  next
    case False
    have npa: "\<not> prefix old ((c # cs) @ b)"
      using prefix_of_append_last [of old "c # cs" b] "2.prems" False by blast
    show ?thesis
    proof (cases cs)
      case Nil
      with False npa "2.prems" show ?thesis by simp
    next
      case (Cons d ds)
      with "2.prems" have "last cs \<notin> set old" "cs \<noteq> []" by auto
      from "2.IH"(3) [OF "2.prems"(3) False this(2) this(1) "2.prems"(3)] False npa "2.prems"(3)
      show ?thesis by simp
    qed
  qed
qed

lemma splitlines_keep_Cons:
  "splitlines_keep (c # cs) =
     (if is_linebreak c then
        (case cs of
           d # ds \<Rightarrow>
             if c = CHR 0x0D \<and> d = CHR 0x0A then [c, d] # splitlines_keep ds
             else [c] # splitlines_keep cs
         | [] \<Rightarrow> [[c]])
      else (case splitlines_keep cs of
              [] \<Rightarrow> [[c]]
            | l # ls \<Rightarrow> (c # l) # ls))"
  by (rule splitlines_keep.simps(2))

lemma lines_shape:
  "(\<forall>l \<in> set (splitlines_keep s). l \<noteq> []) \<and>
   (\<forall>l \<in> set (butlast (splitlines_keep s)). is_linebreak (last l))"
proof (induction s rule: splitlines_keep.induct)
  case 1
  then show ?case by (simp add: splitlines_keep.simps(1))
next
  case (2 c cs)
  show ?case
  proof (cases "is_linebreak c")
    case True
    show ?thesis
    proof (cases cs)
      case Nil
      with True show ?thesis by (simp add: splitlines_keep_Cons)
    next
      case (Cons d ds)
      show ?thesis
      proof (cases "c = CHR 0x0D \<and> d = CHR 0x0A")
        case crlf: True
        have "splitlines_keep (c # cs) = [c, d] # splitlines_keep ds"
          using True Cons crlf by (simp add: splitlines_keep_Cons)
        moreover have "is_linebreak d" using crlf by (simp add: is_linebreak_def)
        ultimately show ?thesis using "2.IH"(1) [OF True Cons crlf] by auto
      next
        case False
        have "splitlines_keep (c # cs) = [c] # splitlines_keep cs"
          using True Cons False by (simp add: splitlines_keep_Cons)
        then show ?thesis using "2.IH"(2) [OF True Cons False] True by auto
      qed
    qed
  next
    case False
    have eq: "splitlines_keep (c # cs)
        = (case splitlines_keep cs of [] \<Rightarrow> [[c]] | l # ls \<Rightarrow> (c # l) # ls)"
      using False by (simp add: splitlines_keep_Cons)
    show ?thesis
    proof (cases "splitlines_keep cs")
      case Nil
      with eq show ?thesis by simp
    next
      case (Cons l ls)
      with "2.IH"(3) [OF False] have "l \<noteq> []" by simp
      with eq Cons "2.IH"(3) [OF False] show ?thesis by auto
    qed
  qed
qed

lemma concat_map_py_replace:
  assumes "old \<noteq> []"
    and "\<forall>l \<in> set ls. l \<noteq> []"
    and "\<forall>l \<in> set (butlast ls). last l \<notin> set old"
  shows "concat (map (py_replace old new) ls) = py_replace old new (concat ls)"
  using assms(2,3)
proof (induction ls)
  case Nil
  then show ?case using assms(1) by simp
next
  case (Cons l ls)
  show ?case
  proof (cases ls)
    case Nil
    then show ?thesis by simp
  next
    case (Cons l' ls')
    with Cons.prems have "l \<noteq> []" "last l \<notin> set old" by auto
    then have "py_replace old new (l @ concat ls)
        = py_replace old new l @ py_replace old new (concat ls)"
      using assms(1) by (rule py_replace_append)
    moreover have "concat (map (py_replace old new) ls) = py_replace old new (concat ls)"
      using Cons.IH Cons.prems Cons by auto
    ultimately show ?thesis by simp
  qed
qed

lemma marker_chars:
  "set COMMENT_MARKER = {CHR ''#'', CHR ''!'', CHR ''c'', CHR ''o'', CHR ''m'', CHR ''e'',
     CHR ''n'', CHR ''t'', CHR '':''}"
  by (auto simp: COMMENT_MARKER_def)

lemma linebreak_not_in_marker: "is_linebreak ch \<Longrightarrow> ch \<notin> set COMMENT_MARKER"
  by (auto simp: marker_chars is_linebreak_def)

lemma restore_comments_replace:
  "restore_comments org_contents = py_replace COMMENT_MARKER ''# '' org_contents"
proof -
  have "concat (map (py_replace COMMENT_MARKER ''# '') (splitlines_keep org_contents))
      = py_replace COMMENT_MARKER ''# '' (concat (splitlines_keep org_contents))"
  proof (rule concat_map_py_replace)
    show "COMMENT_MARKER \<noteq> []" by (simp add: COMMENT_MARKER_def)
    show "\<forall>l \<in> set (splitlines_keep org_contents). l \<noteq> []"
      using lines_shape [of org_contents] by blast
    show "\<forall>l \<in> set (butlast (splitlines_keep org_contents)). last l \<notin> set COMMENT_MARKER"
      using lines_shape [of org_contents] linebreak_not_in_marker by blast
  qed
  then show ?thesis by (simp add: restore_comments_def concat_splitlines_keep)
qed

lemma py_replace_prefix_old:
  "old \<noteq> [] \<Longrightarrow> py_replace old new (old @ r) = new @ py_replace old new r"
  by (cases old) auto

lemma prefix_py_replace:
  assumes "old \<noteq> []" "sp \<notin> set w"
  shows "prefix w (py_replace old [hd old, sp] s) \<Longrightarrow> prefix w s"
  using assms(2)
proof (induction s arbitrary: w)
  case Nil
  then show ?case using assms(1) by simp
next
  case (Cons c cs)
  note old = assms(1)
  show ?case
  proof (cases "prefix old (c # cs)")
    case True
    with Cons.prems(1) \<open>old \<noteq> []\<close>
    have p: "prefix w (hd old # sp # py_replace old [hd old, sp] (drop (length old) (c # cs)))"
      by simp
    have "w = [] \<or> w = [hd old]"
    proof (cases w)
      case Nil
      then show ?thesis by simp
    next
      case wc: (Cons a w')
      with p have a: "a = hd old" and
        p': "prefix w' (sp # py_replace old [hd old, sp] (drop (length old) (c # cs)))"
        by auto
      from wc Cons.prems(2) have "sp \<notin> set w'" by simp
      with p' have "w' = []" by (cases w') auto
      with a wc show ?thesis by simp
    qed
    moreover have "prefix [hd old] (c # cs)"
      using True \<open>old \<noteq> []\<close> by (cases old) (auto simp: prefix_def)
    ultimately show ?thesis by auto
  next
    case False
    with Cons.prems(1) \<open>old \<noteq> []\<close>
    have p: "prefix w (c # py_replace old [hd old, sp] cs)" by simp
    show ?thesis
    proof (cases w)
      case Nil
      then show ?thesis by simp
    next
      case wc: (Cons a w')
      with p have a: "a = c" and p': "prefix w' (py_replace old [hd old, sp] cs)" by auto
      from wc Cons.prems(2) have "sp \<notin> set w'" by simp
      from Cons.IH [OF p' this] have "prefix w' cs" .
      with a wc show ?thesis by simp
    qed
  qed
qed

lemma no_old_after_replace:
  assumes "2 \<le> length old" "sp \<notin> set old"
  shows "\<not> sublist old (py_replace old [hd old, sp] s)"
proof (induction "length s" arbitrary: s rule: less_induct)
  case less
  from assms(1) obtain a b old' where old: "old = a # b # old'"
    by (cases old; cases "tl old") auto
  then have ne: "old \<noteq> []" by simp
  show ?case
  proof (cases s)
    case Nil
    with ne show ?thesis by simp
  next
    case (Cons c cs)
    show ?thesis
    proof (cases "prefix old (c # cs)")
      case True
      let ?r = "drop (length old) (c # cs)"
      have out: "py_replace old [hd old, sp] s = hd old # sp # py_replace old [hd old, sp] ?r"
        using True ne Cons by simp
      have "length ?r < length s" using Cons ne by simp
      then have IH: "\<not> sublist old (py_replace old [hd old, sp] ?r)" by (rule less)
      have n1: "\<not> prefix old (hd old # sp # py_replace old [hd old, sp] ?r)"
        using assms(2) old by auto
      have n2: "\<not> prefix old (sp # py_replace old [hd old, sp] ?r)"
        using assms(2) old by auto
      from IH n1 n2 show ?thesis unfolding out by (simp add: sublist_Cons_right)
    next
      case False
      have out: "py_replace old [hd old, sp] s = c # py_replace old [hd old, sp] cs"
        using False ne Cons by simp
      have "length cs < length s" using Cons by simp
      then have IH: "\<not> sublist old (py_replace old [hd old, sp] cs)" by (rule less)
      have "\<not> prefix old (py_replace old [hd old, sp] s)"
        using prefix_py_replace [OF ne assms(2), of s] False Cons by blast
      with IH show ?thesis unfolding out by (simp add: sublist_Cons_right)
    qed
  qed
qed

lemma no_marker_after_restore: "\<not> sublist COMMENT_MARKER (restore_comments org_contents)"
proof -
  have "\<not> sublist COMMENT_MARKER
           (py_replace COMMENT_MARKER [hd COMMENT_MARKER, CHR '' ''] org_contents)"
    by (rule no_old_after_replace) (simp_all add: COMMENT_MARKER_def)
  moreover have "[hd COMMENT_MARKER, CHR '' ''] = ''# ''" by (simp add: COMMENT_MARKER_def)
  ultimately show ?thesis by (simp add: restore_comments_replace)
qed

lemma restore_comments_marked:
  "restore_comments (COMMENT_MARKER @ rest) = ''# '' @ restore_comments rest"
  by (simp only: restore_comments_replace py_replace_prefix_old)
     (simp add: py_replace_prefix_old COMMENT_MARKER_def)

theorem unterminated_comment_witness:
  "odd (py_count ''%%'' ''a %%b'')
   \<and> fix_markdown_comments ''a %%b'' = fix_markdown_comments ''a '' @ ''<!--b-->''
   \<and> odd (py_count ''%%'' ''a %%  \<newline>b\<newline>c'')
   \<and> fix_markdown_comments ''a %%  \<newline>b\<newline>c''
       = fix_markdown_comments ''a '' @ ''#!#comment:b\<newline>#!#comment:c''"
proof -
  have o1: "odd (py_count ''%%'' ''a %%b'')" by code_simp
  have s1: "py_split ''%%'' ''a %%b'' = [''a '', ''b'']" by code_simp
  have o2: "odd (py_count ''%%'' ''a %%  \<newline>b\<newline>c'')" by code_simp
  have s2: "py_split ''%%'' ''a %%  \<newline>b\<newline>c'' = [''a '', ''  \<newline>b\<newline>c'']" by code_simp
  have l2: "splitlines_keep ''  \<newline>b\<newline>c'' = [''  \<newline>'', ''b\<newline>'', ''c'']" by code_simp
  have b2: "py_strip ''  \<newline>'' = []" by code_simp
  from unterminated_comment [OF o1]
  have a: "fix_markdown_comments ''a %%b'' = fix_markdown_comments ''a '' @ ''<!--b-->''"
    by (simp add: s1 Let_def)
  from unterminated_comment [OF o2]
  have b: "fix_markdown_comments ''a %%  \<newline>b\<newline>c''
       = fix_markdown_comments ''a '' @ ''#!#comment:b\<newline>#!#comment:c''"
    by (simp add: s2 l2 b2 Let_def COMMENT_MARKER_def)
  from o1 o2 a b show ?thesis by blast
qed

lemma prefix_within:
  assumes "prefix sep (c @ sep @ r)" "c \<noteq> []"
  shows "prefix sep (c @ butlast sep)"
proof (cases "sep = []")
  case True
  then show ?thesis by simp
next
  case False
  then have "c @ sep @ r = (c @ butlast sep) @ (last sep # r)" by simp
  with assms(1) have "prefix sep ((c @ butlast sep) @ (last sep # r))" by simp
  moreover have "length sep \<le> length (c @ butlast sep)" using assms(2) False
    by (cases c) auto
  ultimately show ?thesis
    by (metis prefix_length_prefix prefixI)
qed

lemma py_split_first:
  assumes "sep \<noteq> []" "\<not> sublist sep (c @ butlast sep)"
  shows "py_split sep (c @ sep @ r) = c # py_split sep r"
  using assms(2)
proof (induction c)
  case Nil
  then show ?case using assms(1) by (simp add: py_split_sep_append)
next
  case (Cons a c)
  have "\<not> prefix sep ((a # c) @ sep @ r)"
  proof
    assume "prefix sep ((a # c) @ sep @ r)"
    then have "prefix sep ((a # c) @ butlast sep)" by (rule prefix_within) simp
    then have "sublist sep ((a # c) @ butlast sep)" by (rule prefix_imp_sublist)
    with Cons.prems show False by simp
  qed
  moreover from Cons.prems have "\<not> sublist sep (c @ butlast sep)"
    by (auto simp: sublist_Cons_right)
  ultimately show ?case using Cons.IH by (simp add: py_split_skip)
qed

lemma first_chunk:
  assumes "sep \<noteq> []" "py_split sep s = c # cs" "cs \<noteq> []"
  shows "\<not> sublist sep (c @ butlast sep)"
  using assms
proof (induction sep s arbitrary: c cs rule: py_split.induct)
  case (1 sep)
  then show ?case by simp
next
  case (2 sep x xs)
  note ne = "2.prems"(1)
  show ?case
  proof (cases "sep \<noteq> [] \<and> prefix sep (x # xs)")
    case True
    with "2.prems" have "c = []" by simp
    moreover have "\<not> sublist sep (butlast sep)"
    proof
      assume "sublist sep (butlast sep)"
      then have "length sep \<le> length (butlast sep)" by (rule sublist_length_le)
      moreover have "0 < length sep" using ne by simp
      ultimately show False by (simp only: length_butlast)
    qed
    ultimately show ?thesis by simp
  next
    case False
    obtain h t where ht: "py_split sep xs = h # t"
      using py_split_not_Nil [of sep xs] by (cases "py_split sep xs") auto
    with False "2.prems" have c: "c = x # h" and t: "t = cs" by auto
    from "2.IH"(2) [OF False ne ht] t "2.prems"(3) have IH: "\<not> sublist sep (h @ butlast sep)"
      by simp
    have xs: "xs = h @ sep @ py_join sep t"
    proof -
      have "py_join sep (h # t) = xs" using py_join_split [of sep xs] ht by simp
      then show ?thesis using t "2.prems"(3) by (simp add: py_join_Cons)
    qed
    have "\<not> prefix sep ((x # h) @ butlast sep)"
    proof
      assume p: "prefix sep ((x # h) @ butlast sep)"
      have "sep = butlast sep @ [last sep]" using ne by simp
      then have "sep @ py_join sep t = butlast sep @ (last sep # py_join sep t)"
        by (metis append.assoc append_Cons append_Nil)
      then have "x # xs = ((x # h) @ butlast sep) @ (last sep # py_join sep t)"
        by (simp add: xs)
      then have "prefix ((x # h) @ butlast sep) (x # xs)" by (metis prefixI)
      with p have "prefix sep (x # xs)" by (rule prefix_order.trans)
      with False ne show False by simp
    qed
    with IH show ?thesis unfolding c by (simp add: sublist_Cons_right)
  qed
qed

lemma py_split_tail:
  assumes "sep \<noteq> []" "py_split sep s = c # cs" "cs \<noteq> []"
  shows "s = c @ sep @ py_join sep cs" "py_split sep (py_join sep cs) = cs"
proof -
  have "py_join sep (c # cs) = s" using py_join_split [of sep s] assms(2) by simp
  then show s: "s = c @ sep @ py_join sep cs" using assms(3) by (simp add: py_join_Cons)
  have "py_split sep (c @ sep @ py_join sep cs) = c # py_split sep (py_join sep cs)"
    using assms(1) first_chunk [OF assms] by (rule py_split_first)
  with s assms(2) show "py_split sep (py_join sep cs) = cs" by simp
qed

lemma comment_decomposition:
  assumes "2 \<le> py_count ''%%'' contents"
  shows "\<exists>before body chunks.
           py_split ''%%'' contents = before # body # chunks \<and> chunks \<noteq> [] \<and>
           contents = before @ ''%%'' @ body @ ''%%'' @ py_join ''%%'' chunks \<and>
           py_split ''%%'' (py_join ''%%'' chunks) = chunks \<and>
           \<not> sublist ''%%'' (before @ ''%'') \<and> \<not> sublist ''%%'' (body @ ''%'')"
proof -
  have "length (py_split ''%%'' contents) = Suc (py_count ''%%'' contents)"
    by (rule length_py_split)
  with assms have "3 \<le> length (py_split ''%%'' contents)" by simp
  then obtain before body chunks where
    sp: "py_split ''%%'' contents = before # body # chunks" and ne: "chunks \<noteq> []"
    by (cases "py_split ''%%'' contents"; cases "tl (py_split ''%%'' contents)";
        cases "tl (tl (py_split ''%%'' contents))") auto
  have sep: "''%%'' \<noteq> []" by simp
  have ne1: "body # chunks \<noteq> []" by simp
  note a = py_split_tail [OF sep sp ne1] first_chunk [OF sep sp ne1]
  note b = py_split_tail [OF sep a(2) ne] first_chunk [OF sep a(2) ne]
  have "py_join ''%%'' (body # chunks) = body @ ''%%'' @ py_join ''%%'' chunks"
    using b(1) .
  with a(1) have "contents = before @ ''%%'' @ body @ ''%%'' @ py_join ''%%'' chunks"
    by simp
  moreover have "butlast ''%%'' = ''%''" by simp
  ultimately show ?thesis using sp ne a(3) b(2,3) by auto
qed

text \<open>
  C5. A text with two markers or more is the text \<open>before\<close> its first marker, the
  \<open>body\<close> between its first two markers and the \<open>rest\<close> after the second one.
  \<open>fix_markdown_comments\<close> gives \<open>before\<close>, then the comment made of \<open>body\<close>, then what it
  gives for \<open>rest\<close>, where every further comment is converted in the same way. A \<open>body\<close>
  without a newline becomes \<^verbatim>\<open><!--body-->\<close>; a \<open>body\<close> with a newline becomes its lines
  (they make up \<open>body\<close>), each after the sentinel, the first one, what follows the
  opening marker on its line, dropped when blank. \<open>restore_comments\<close> replaces every
  sentinel by \<^verbatim>\<open># \<close>, line by line, which is the replacement over the whole text, so a
  line that starts with the sentinel starts with \<^verbatim>\<open># \<close> afterwards and no sentinel is
  left in the result, whatever the text.
\<close>

theorem comment_round_trip:
  assumes "2 \<le> py_count ''%%'' contents"
  shows "let chunks = py_split ''%%'' contents;
             before = hd chunks;
             body = hd (tl chunks);
             rest = py_join ''%%'' (tl (tl chunks))
         in contents = before @ ''%%'' @ body @ ''%%'' @ rest
            \<and> \<not> sublist ''%%'' (before @ ''%'') \<and> \<not> sublist ''%%'' (body @ ''%'')
            \<and> fix_markdown_comments contents
                = before @
                  (if CHR 0x0A \<in> set body
                   then concat (map (\<lambda>line. COMMENT_MARKER @ line)
                          (if py_strip (hd (splitlines_keep body)) = []
                           then tl (splitlines_keep body) else splitlines_keep body))
                   else ''<!--'' @ body @ ''-->'') @
                  fix_markdown_comments rest
            \<and> concat (splitlines_keep body) = body
            \<and> restore_comments org_contents = py_replace COMMENT_MARKER ''# '' org_contents
            \<and> restore_comments (COMMENT_MARKER @ org_contents)
                = ''# '' @ restore_comments org_contents
            \<and> \<not> sublist COMMENT_MARKER (restore_comments org_contents)"
proof -
  from comment_decomposition [OF assms] obtain before body chunks where
    sp: "py_split ''%%'' contents = before # body # chunks" and
    decomp: "contents = before @ ''%%'' @ body @ ''%%'' @ py_join ''%%'' chunks" and
    rest: "py_split ''%%'' (py_join ''%%'' chunks) = chunks" and
    first: "\<not> sublist ''%%'' (before @ ''%'')" "\<not> sublist ''%%'' (body @ ''%'')"
    by blast
  have "fix_markdown_comments contents = concat (comment_loop False (before # body # chunks))"
    by (simp only: fix_markdown_comments_def sp)
  also have "\<dots> = before @ concat (comment_chunk body) @ concat (comment_loop False chunks)"
    by simp
  also have "concat (comment_loop False chunks) = fix_markdown_comments (py_join ''%%'' chunks)"
    by (simp only: fix_markdown_comments_def rest)
  finally have "fix_markdown_comments contents
      = before @ concat (comment_chunk body) @ fix_markdown_comments (py_join ''%%'' chunks)" .
  then have fmc: "fix_markdown_comments contents
      = before @
        (if CHR 0x0A \<in> set body
         then concat (map (\<lambda>line. COMMENT_MARKER @ line)
                (if py_strip (hd (splitlines_keep body)) = []
                 then tl (splitlines_keep body) else splitlines_keep body))
         else ''<!--'' @ body @ ''-->'') @
        fix_markdown_comments (py_join ''%%'' chunks)"
    by (simp only: comment_chunk_concat)
  show ?thesis
    unfolding Let_def sp list.sel
    using decomp first fmc concat_splitlines_keep [of body]
      restore_comments_replace [of org_contents] restore_comments_marked [of org_contents]
      no_marker_after_restore [of org_contents]
    by blast
qed

theorem comment_round_trip_witness:
  "2 \<le> py_count ''%%'' ''50% %%note%% done\<newline>%%\<newline>multiline\<newline>comment\<newline>%%\<newline>''
   \<and> fix_markdown_comments ''50% %%note%% done\<newline>%%\<newline>multiline\<newline>comment\<newline>%%\<newline>''
       = ''50% <!--note-->'' @ fix_markdown_comments '' done\<newline>%%\<newline>multiline\<newline>comment\<newline>%%\<newline>''
   \<and> 2 \<le> py_count ''%%'' '' done\<newline>%%\<newline>multiline\<newline>comment\<newline>%%\<newline>''
   \<and> fix_markdown_comments '' done\<newline>%%\<newline>multiline\<newline>comment\<newline>%%\<newline>''
       = '' done\<newline>#!#comment:multiline\<newline>#!#comment:comment\<newline>'' @ fix_markdown_comments ''\<newline>''
   \<and> fix_markdown_comments ''50% %%note%% done\<newline>%%\<newline>multiline\<newline>comment\<newline>%%\<newline>''
       = ''50% <!--note--> done\<newline>#!#comment:multiline\<newline>#!#comment:comment\<newline>\<newline>''
   \<and> restore_comments ''#!#comment:multiline\<newline>#!#comment:comment\<newline>''
       = ''# multiline\<newline># comment\<newline>''"
proof -
  let ?c = "''50% %%note%% done\<newline>%%\<newline>multiline\<newline>comment\<newline>%%\<newline>''"
  let ?d = "'' done\<newline>%%\<newline>multiline\<newline>comment\<newline>%%\<newline>''"
  have n1: "2 \<le> py_count ''%%'' ?c" by code_simp
  have n2: "2 \<le> py_count ''%%'' ?d" by code_simp
  have s1: "py_split ''%%'' ?c = [''50% '', ''note'', '' done\<newline>'', ''\<newline>multiline\<newline>comment\<newline>'', ''\<newline>'']"
    by code_simp
  have s2: "py_split ''%%'' ?d = ['' done\<newline>'', ''\<newline>multiline\<newline>comment\<newline>'', ''\<newline>'']"
    by code_simp
  have j1: "py_join ''%%'' ['' done\<newline>'', ''\<newline>multiline\<newline>comment\<newline>'', ''\<newline>''] = ?d"
    by code_simp
  have l: "splitlines_keep ''\<newline>multiline\<newline>comment\<newline>''
      = [''\<newline>'', ''multiline\<newline>'', ''comment\<newline>'']" by code_simp
  have b: "py_strip ''\<newline>'' = []" by code_simp
  have r: "py_replace COMMENT_MARKER ''# '' ''#!#comment:multiline\<newline>#!#comment:comment\<newline>''
      = ''# multiline\<newline># comment\<newline>''" by code_simp
  from comment_round_trip [OF n1, of "[]"]
  have a: "fix_markdown_comments ?c = ''50% <!--note-->'' @ fix_markdown_comments ?d"
    by (simp add: s1 j1 Let_def)
  from comment_round_trip [OF n2, of "''#!#comment:multiline\<newline>#!#comment:comment\<newline>''"]
  have c: "fix_markdown_comments ?d
       = '' done\<newline>#!#comment:multiline\<newline>#!#comment:comment\<newline>'' @ fix_markdown_comments ''\<newline>''"
    and d: "restore_comments ''#!#comment:multiline\<newline>#!#comment:comment\<newline>''
       = ''# multiline\<newline># comment\<newline>''"
    by (simp_all add: s2 l b r Let_def COMMENT_MARKER_def)
  have e: "fix_markdown_comments ''\<newline>'' = ''\<newline>''" by code_simp
  from a c e have f: "fix_markdown_comments ?c
      = ''50% <!--note--> done\<newline>#!#comment:multiline\<newline>#!#comment:comment\<newline>\<newline>''"
    by simp
  from n1 n2 a c d f show ?thesis by blast
qed

section \<open>Patterns and plain text\<close>

lemma lang_StarI:
  "set ws \<subseteq> lang a \<Longrightarrow> concat ws \<in> lang (Star a)"
  "set ws \<subseteq> lang a \<Longrightarrow> concat ws \<in> lang (StarLazy a)"
  by auto

lemma rmatch_sound:
  "(s', g') \<in> set (rmatch r s g) \<Longrightarrow> \<exists>m \<in> lang r. s = m @ s'"
proof (induction r s g arbitrary: s' g' rule: rmatch.induct)
  case (1 l s g)
  then show ?case by (auto simp: rmatch.simps(1) prefix_def split: if_splits)
next
  case (2 cs s g)
  then show ?case by (auto simp: rmatch.simps(2) split: list.splits if_splits)
next
  case (3 a b s g)
  from "3.prems" obtain s1 g1 where
    a: "(s1, g1) \<in> set (rmatch a s g)" and b: "(s', g') \<in> set (rmatch b s1 g1)"
    by (auto simp: rmatch.simps(3))
  from "3.IH"(1) [OF a] obtain u where u: "u \<in> lang a" "s = u @ s1" by blast
  from "3.IH"(2) [OF a refl b] obtain v where v: "v \<in> lang b" "s1 = v @ s'" by blast
  from u v have "u @ v \<in> lang (Seq a b)" "s = (u @ v) @ s'" by auto
  then show ?case by blast
next
  case (4 a b s g)
  from "4.prems" consider "(s', g') \<in> set (rmatch a s g)" | "(s', g') \<in> set (rmatch b s g)"
    by (auto simp: rmatch.simps(4))
  then show ?case
  proof cases
    case 1
    from "4.IH"(1) [OF 1] show ?thesis by auto
  next
    case 2
    from "4.IH"(2) [OF 2] show ?thesis by auto
  qed
next
  case (5 a s g)
  from "5.prems" consider "s' = s" |
    s1 g1 where "(s1, g1) \<in> set (rmatch a s g)" "length s1 < length s"
      "(s', g') \<in> set (rmatch (Star a) s1 g1)"
    by (subst (asm) rmatch.simps(5)) (auto split: if_splits)
  then show ?case
  proof cases
    case 1
    have "concat [] \<in> lang (Star a)" by (rule lang_StarI) simp
    with 1 show ?thesis by (auto simp del: lang.simps)
  next
    case 2
    from "5.IH"(1) [OF 2(1)] obtain u where u: "u \<in> lang a" "s = u @ s1" by blast
    from "5.IH"(2) [OF 2(1) refl 2(2) 2(3)] obtain ws where
      ws: "set ws \<subseteq> lang a" "s1 = concat ws @ s'" by auto
    from u ws have sub: "set (u # ws) \<subseteq> lang a" and eq: "s = concat (u # ws) @ s'" by auto
    from sub have "concat (u # ws) \<in> lang (Star a)" by (rule lang_StarI)
    with eq show ?thesis by blast
  qed
next
  case (6 a s g)
  from "6.prems" consider "s' = s" |
    s1 g1 where "(s1, g1) \<in> set (rmatch a s g)" "length s1 < length s"
      "(s', g') \<in> set (rmatch (StarLazy a) s1 g1)"
    by (subst (asm) rmatch.simps(6)) (auto split: if_splits)
  then show ?case
  proof cases
    case 1
    have "concat [] \<in> lang (StarLazy a)" by (rule lang_StarI) simp
    with 1 show ?thesis by (auto simp del: lang.simps)
  next
    case 2
    from "6.IH"(1) [OF 2(1)] obtain u where u: "u \<in> lang a" "s = u @ s1" by blast
    from "6.IH"(2) [OF 2(1) refl 2(2) 2(3)] obtain ws where
      ws: "set ws \<subseteq> lang a" "s1 = concat ws @ s'" by auto
    from u ws have sub: "set (u # ws) \<subseteq> lang a" and eq: "s = concat (u # ws) @ s'" by auto
    from sub have "concat (u # ws) \<in> lang (StarLazy a)" by (rule lang_StarI)
    with eq show ?thesis by blast
  qed
next
  case (7 n a s g)
  then show ?case by (auto simp: rmatch.simps(7))
qed

lemma find_match_None: "rmatch r s Map.empty = [] \<Longrightarrow> find_match r adv s = None"
  by (simp add: find_match_def)

lemma scan_go_no_match:
  "(\<And>s'. suffix s' s \<Longrightarrow> rmatch r s' Map.empty = []) \<Longrightarrow> scan_go r adv s = map Copy s"
proof (induction s arbitrary: adv)
  case Nil
  then have "find_match r adv [] = None" by (simp add: find_match_None)
  then show ?case by (subst scan_go.simps) simp
next
  case (Cons x xs)
  have "find_match r adv (x # xs) = None"
    by (rule find_match_None) (rule Cons.prems, simp)
  moreover have "scan_go r False xs = map Copy xs"
    by (rule Cons.IH) (rule Cons.prems, simp add: suffix_ConsI)
  ultimately show ?case by (subst scan_go.simps) simp
qed

lemma re_sub_no_match:
  assumes "\<And>s'. suffix s' s \<Longrightarrow> rmatch r s' Map.empty = []"
  shows "re_sub r tpl s = s"
proof -
  have "scan r s = map Copy s" unfolding scan_def using assms by (rule scan_go_no_match)
  moreover have "concat (map (\<lambda>p. case p of Copy c \<Rightarrow> [c] | Match m g \<Rightarrow> expand tpl g)
      (map Copy s)) = s"
    by (induction s) simp_all
  ultimately show ?thesis by (simp add: re_sub_def)
qed

lemma rmatch_Nil_if: "(\<And>m. m \<in> lang r \<Longrightarrow> \<not> prefix m s) \<Longrightarrow> rmatch r s g = []"
proof (rule ccontr)
  assume a: "\<And>m. m \<in> lang r \<Longrightarrow> \<not> prefix m s" and "rmatch r s g \<noteq> []"
  then obtain s' g' where "(s', g') \<in> set (rmatch r s g)"
    by (cases "rmatch r s g") auto
  from rmatch_sound [OF this] a show False by (auto simp: prefix_def)
qed

lemma no_match_without:
  assumes lit: "\<And>m. m \<in> lang r \<Longrightarrow> sublist l m" and none: "\<not> sublist l t"
  shows "re_sub r tpl t = t"
proof (rule re_sub_no_match)
  fix s' assume suf: "suffix s' t"
  show "rmatch r s' Map.empty = []"
  proof (rule rmatch_Nil_if)
    fix m assume "m \<in> lang r"
    then have "sublist l m" by (rule lit)
    show "\<not> prefix m s'"
    proof
      assume "prefix m s'"
      then have "sublist m s'" by (rule prefix_imp_sublist)
      with \<open>sublist l m\<close> have "sublist l s'" by (rule sublist_order.order.trans)
      moreover from suf have "sublist s' t" by (rule suffix_imp_sublist)
      ultimately have "sublist l t" by (rule sublist_order.order.trans)
      with none show False by simp
    qed
  qed
qed

lemma lang_LINK_RE: "m \<in> lang LINK_RE \<Longrightarrow> sublist ''[['' m"
  by (auto simp: LINK_RE_def)

lemma lang_LINK_DESCRIPTION_RE: "m \<in> lang LINK_DESCRIPTION_RE \<Longrightarrow> sublist ''[['' m"
  by (auto simp: LINK_DESCRIPTION_RE_def)

lemma lang_IMAGE_RE: "m \<in> lang IMAGE_RE \<Longrightarrow> sublist ''[['' m"
  unfolding IMAGE_RE_def Opt_def
  by (auto simp: sublist_Cons_right simp del: lang.simps(5))

lemma lang_PDF_RE: "m \<in> lang PDF_RE \<Longrightarrow> sublist ''[['' m"
  unfolding PDF_RE_def Opt_def
  by (auto simp: sublist_Cons_right simp del: lang.simps(5))

lemma lang_RUN_BLOCK_RE: "m \<in> lang RUN_BLOCK_RE \<Longrightarrow> sublist ''```run-'' m"
  by (auto simp: RUN_BLOCK_RE_def simp del: lang.simps(5))

lemma py_replace_none: "\<not> sublist old s \<Longrightarrow> py_replace old new s = s"
proof (induction s)
  case Nil
  then show ?case by auto
next
  case (Cons c cs)
  then have "\<not> prefix old (c # cs)" "\<not> sublist old cs" "old \<noteq> []"
    by (auto simp: sublist_Cons_right)
  with Cons.IH show ?case by simp
qed

lemma py_split_single: "\<not> sublist sep s \<Longrightarrow> py_split sep s = [s]"
proof (induction s)
  case Nil
  then show ?case by simp
next
  case (Cons c cs)
  then have "\<not> prefix sep (c # cs)" "\<not> sublist sep cs"
    by (auto simp: sublist_Cons_right)
  with Cons.IH show ?case by simp
qed

text \<open>
  C8. A text without the marker \<^verbatim>\<open>%%\<close> and without the code block tags that the program
  rewrites (three backticks followed by \<^verbatim>\<open>run-\<close> or by \<^verbatim>\<open>sh\<close>) is returned unchanged by
  \<open>prepare_markdown_text\<close>; a text without \<^verbatim>\<open>[[\<close> and without \<^verbatim>\<open>%20\<close> is returned unchanged
  by \<open>fix_links\<close>. A plain paragraph is such a text.
\<close>

theorem plain_text_unchanged:
  "(\<not> sublist ''%%'' t \<and> \<not> sublist ''```run-'' t \<and> \<not> sublist ''```sh'' t
      \<longrightarrow> prepare_markdown_text t = t)
   \<and> (\<not> sublist ''[['' t \<and> \<not> sublist ''%20'' t \<longrightarrow> fix_links t = t)"
proof (intro conjI impI)
  assume a: "\<not> sublist ''%%'' t \<and> \<not> sublist ''```run-'' t \<and> \<not> sublist ''```sh'' t"
  then have c: "fix_markdown_comments t = t"
    by (simp add: fix_markdown_comments_def py_split_single)
  from a have b: "\<not> sublist ''```run-'' t" by simp
  have r: "re_sub RUN_BLOCK_RE [TLit ''```'', TGrp 1] t = t"
    using lang_RUN_BLOCK_RE b by (rule no_match_without)
  from a have "py_replace ''```sh'' ''```shell'' t = t"
    by (intro py_replace_none) simp
  with c r show "prepare_markdown_text t = t"
    by (simp add: prepare_markdown_text_def fix_markdown_code_blocks_def)
next
  assume a: "\<not> sublist ''[['' t \<and> \<not> sublist ''%20'' t"
  then have n: "\<not> sublist ''[['' t" by simp
  have 1: "re_sub LINK_RE tpl t = t" for tpl
    using lang_LINK_RE n by (rule no_match_without)
  have 2: "re_sub LINK_DESCRIPTION_RE tpl t = t" for tpl
    using lang_LINK_DESCRIPTION_RE n by (rule no_match_without)
  have 3: "re_sub IMAGE_RE tpl t = t" for tpl
    using lang_IMAGE_RE n by (rule no_match_without)
  have 4: "re_sub PDF_RE tpl t = t" for tpl
    using lang_PDF_RE n by (rule no_match_without)
  from a have "py_replace ''%20'' '' '' t = t" by (intro py_replace_none) simp
  then show "fix_links t = t" by (simp add: fix_links_def 1 2 3 4)
qed

theorem plain_text_unchanged_witness:
  "\<not> sublist ''%%'' ''This is a paragraph.'' \<and> \<not> sublist ''```run-'' ''This is a paragraph.''
   \<and> \<not> sublist ''```sh'' ''This is a paragraph.''
   \<and> \<not> sublist ''[['' ''This is a paragraph.'' \<and> \<not> sublist ''%20'' ''This is a paragraph.''
   \<and> prepare_markdown_text ''This is a paragraph.'' = ''This is a paragraph.''
   \<and> fix_links ''This is a paragraph.'' = ''This is a paragraph.''"
proof -
  have h: "\<not> sublist ''%%'' ''This is a paragraph.''"
    "\<not> sublist ''```run-'' ''This is a paragraph.''"
    "\<not> sublist ''```sh'' ''This is a paragraph.''"
    "\<not> sublist ''[['' ''This is a paragraph.''" "\<not> sublist ''%20'' ''This is a paragraph.''"
    by code_simp+
  with plain_text_unchanged [of "''This is a paragraph.''"] show ?thesis by blast
qed

section \<open>Image embeds\<close>



































end
